theory Spec2Isabelle
  imports Main
begin

section \<open>The mid-line extractor \<open>make_carrington.py\<close>\<close>

text \<open>
  The script walks an hourly list of timestamps; for each it loads a magnetogram tensor
  from a path derived from the timestamp, takes column 512 and saves it under a second
  derived path. The Python it calls from the standard library and from torch
  (\<open>datetime\<close>, \<open>os.path\<close>, \<open>os.makedirs\<close>, \<open>torch.load\<close>, \<open>torch.save\<close>, tensor
  indexing) is modelled here by its documented behaviour; \<open>sel_mid_line\<close> and \<open>main\<close>
  are translated line by line.
\<close>

subsection \<open>Exceptions and results\<close>

text \<open>
  The exception classes the modelled operations raise. Every one of them is a subclass
  of \<open>Exception\<close>; \<open>FileNotFoundError\<close>, \<open>NotADirectoryError\<close>, \<open>IsADirectoryError\<close> and
  \<open>FileExistsError\<close> are subclasses of \<open>OSError\<close>.
\<close>

datatype exn =
    FileNotFoundError
  | NotADirectoryError
  | IsADirectoryError
  | FileExistsError
  | UnpicklingError
  | IndexError
  | OverflowError
  | ZeroDivisionError
  | ValueError

fun isinstance_Exception :: "exn \<Rightarrow> bool" where
  "isinstance_Exception FileNotFoundError = True"
| "isinstance_Exception NotADirectoryError = True"
| "isinstance_Exception IsADirectoryError = True"
| "isinstance_Exception FileExistsError = True"
| "isinstance_Exception UnpicklingError = True"
| "isinstance_Exception IndexError = True"
| "isinstance_Exception OverflowError = True"
| "isinstance_Exception ZeroDivisionError = True"
| "isinstance_Exception ValueError = True"

fun isinstance_OSError :: "exn \<Rightarrow> bool" where
  "isinstance_OSError FileNotFoundError = True"
| "isinstance_OSError NotADirectoryError = True"
| "isinstance_OSError IsADirectoryError = True"
| "isinstance_OSError FileExistsError = True"
| "isinstance_OSError UnpicklingError = False"
| "isinstance_OSError IndexError = False"
| "isinstance_OSError OverflowError = False"
| "isinstance_OSError ZeroDivisionError = False"
| "isinstance_OSError ValueError = False"

text \<open>A call either returns a value or raises.\<close>

datatype 'a result = Return 'a | Raise exn

subsection \<open>\<open>datetime\<close>: fields and \<open>strftime\<close>\<close>

text \<open>
  A naive \<open>datetime\<close> object: its seven fields. The constructor accepts exactly the
  field values of \<open>valid_datetime\<close> (defined with the calendar below).
\<close>

record datetime =
  year :: int
  month :: int
  day :: int
  hour :: int
  minute :: int
  second :: int
  microsecond :: int

definition mk_datetime :: "int \<Rightarrow> int \<Rightarrow> int \<Rightarrow> int \<Rightarrow> int \<Rightarrow> int \<Rightarrow> datetime" where
  "mk_datetime y mo d h mi s =
     \<lparr>year = y, month = mo, day = d, hour = h, minute = mi, second = s, microsecond = 0\<rparr>"

definition digit :: "int \<Rightarrow> char" where
  "digit d = ''0123456789'' ! nat d"

text \<open>
  \<open>zpad w n\<close>: the decimal digits of \<open>n\<close> in a field of width \<open>w\<close>, zero-filled. The
  directives below print fields that fit their width for every valid \<open>datetime\<close>
  (\<open>%Y\<close> is documented as \<open>0001 .. 9999\<close>, the others as two digits).
\<close>

fun zpad :: "nat \<Rightarrow> int \<Rightarrow> string" where
  "zpad 0 n = []"
| "zpad (Suc w) n = zpad w (n div 10) @ [digit (n mod 10)]"

definition directive :: "char \<Rightarrow> datetime \<Rightarrow> string" where
  "directive c dt =
     (if c = CHR ''Y'' then zpad 4 (year dt)
      else if c = CHR ''m'' then zpad 2 (month dt)
      else if c = CHR ''d'' then zpad 2 (day dt)
      else if c = CHR ''H'' then zpad 2 (hour dt)
      else if c = CHR ''M'' then zpad 2 (minute dt)
      else if c = CHR ''S'' then zpad 2 (second dt)
      else if c = CHR ''%'' then ''%''
      else [CHR ''%'', c])"

text \<open>\<open>date_time.strftime(fmt)\<close>: ordinary characters are copied, \<open>%x\<close> is a directive.\<close>

fun strftime :: "string \<Rightarrow> datetime \<Rightarrow> string" where
  "strftime [] dt = []"
| "strftime [c] dt = [c]"
| "strftime (c # d # cs) dt =
     (if c = CHR ''%'' then directive d dt @ strftime cs dt
      else c # strftime (d # cs) dt)"

subsection \<open>\<open>os.path\<close>\<close>

text \<open>
  \<open>posixpath.join(a, b)\<close>: a second component that starts with the separator replaces
  everything before it.
  \<^verbatim>\<open>
    if b.startswith(sep):            path = b
    elif not path or path.endswith(sep): path += b
    else:                            path += sep + b
  \<close>
\<close>

definition os_path_join :: "string \<Rightarrow> string \<Rightarrow> string" where
  "os_path_join a b =
     (if b \<noteq> [] \<and> hd b = CHR ''/'' then b
      else if a = [] \<or> last a = CHR ''/'' then a @ b
      else a @ ''/'' @ b)"

subsection \<open>The paths of \<open>sel_mid_line\<close>\<close>

text \<open>Lines 40 to 42 of the source.\<close>

definition path_format :: string where
  "path_format = ''/%Y/%m/%d/hmi.M_720s.%Y%m%d_%H%M%S''"

definition relevant_path :: "datetime \<Rightarrow> string" where
  "relevant_path date_time = strftime path_format date_time @ ''_TAI.pt''"

definition data_path :: "string \<Rightarrow> datetime \<Rightarrow> string" where
  "data_path input_dir date_time = os_path_join input_dir (relevant_path date_time)"

definition output_path :: "string \<Rightarrow> datetime \<Rightarrow> string" where
  "output_path output_dir date_time =
     os_path_join output_dir (strftime path_format date_time @ ''_midline.pt'')"

subsection \<open>\<open>datetime\<close>: the calendar and arithmetic\<close>

text \<open>
  The proleptic Gregorian calendar of the \<open>datetime\<close> module: days are numbered from
  1 (0001-01-01) to \<open>MAXORDINAL\<close> (9999-12-31).
  \<^verbatim>\<open>
    def _is_leap(year):
        return year % 4 == 0 and (year % 100 != 0 or year % 400 == 0)
    def _days_before_year(year):
        y = year - 1
        return y*365 + y//4 - y//100 + y//400
    def _days_before_month(year, month):
        return _DAYS_BEFORE_MONTH[month] + (month > 2 and _is_leap(year))
    def _ymd2ord(year, month, day):
        return _days_before_year(year) + _days_before_month(year, month) + day
  \<close>
\<close>

definition is_leap :: "int \<Rightarrow> bool" where
  "is_leap y = (y mod 4 = 0 \<and> (y mod 100 \<noteq> 0 \<or> y mod 400 = 0))"

definition days_before_year :: "int \<Rightarrow> int" where
  "days_before_year yr = (let y = yr - 1 in y * 365 + y div 4 - y div 100 + y div 400)"

definition DAYS_IN_MONTH :: "int list" where
  "DAYS_IN_MONTH = [-1, 31, 28, 31, 30, 31, 30, 31, 31, 30, 31, 30, 31]"

definition DAYS_BEFORE_MONTH :: "int list" where
  "DAYS_BEFORE_MONTH = [-1, 0, 31, 59, 90, 120, 151, 181, 212, 243, 273, 304, 334]"

definition days_in_month :: "int \<Rightarrow> int \<Rightarrow> int" where
  "days_in_month y m = (if m = 2 \<and> is_leap y then 29 else DAYS_IN_MONTH ! nat m)"

definition days_before_month :: "int \<Rightarrow> int \<Rightarrow> int" where
  "days_before_month y m = DAYS_BEFORE_MONTH ! nat m + (if m > 2 \<and> is_leap y then 1 else 0)"

definition ymd2ord :: "int \<Rightarrow> int \<Rightarrow> int \<Rightarrow> int" where
  "ymd2ord y m d = days_before_year y + days_before_month y m + d"

definition MAXORDINAL :: int where
  "MAXORDINAL = 3652059"

text \<open>
  \<open>_ord2ymd\<close>, with \<open>_DI400Y = 146097\<close>, \<open>_DI100Y = 36524\<close>, \<open>_DI4Y = 1461\<close>:
  \<^verbatim>\<open>
    n -= 1
    n400, n = divmod(n, _DI400Y)
    year = n400 * 400 + 1
    n100, n = divmod(n, _DI100Y)
    n4, n = divmod(n, _DI4Y)
    n1, n = divmod(n, 365)
    year += n100 * 100 + n4 * 4 + n1
    if n1 == 4 or n100 == 4:
        return year-1, 12, 31
    leapyear = n1 == 3 and (n4 != 24 or n100 == 3)
    month = (n + 50) >> 5
    preceding = _DAYS_BEFORE_MONTH[month] + (month > 2 and leapyear)
    if preceding > n:
        month -= 1
        preceding -= _DAYS_IN_MONTH[month] + (month == 2 and leapyear)
    n -= preceding
    return year, month, n+1
  \<close>
\<close>

definition ord2ymd :: "int \<Rightarrow> int \<times> int \<times> int" where
  "ord2ymd n0 =
     (let n = n0 - 1;
          n400 = n div 146097; n = n mod 146097;
          n100 = n div 36524; n = n mod 36524;
          n4 = n div 1461; n = n mod 1461;
          n1 = n div 365; n = n mod 365;
          yr = n400 * 400 + 1 + (n100 * 100 + n4 * 4 + n1)
      in if n1 = 4 \<or> n100 = 4 then (yr - 1, 12, 31)
         else
           let leapyear = (n1 = 3 \<and> (n4 \<noteq> 24 \<or> n100 = 3));
               mo = (n + 50) div 32;
               preceding = DAYS_BEFORE_MONTH ! nat mo + (if mo > 2 \<and> leapyear then 1 else 0)
           in if preceding > n
              then (yr, mo - 1,
                    n - (preceding -
                         (DAYS_IN_MONTH ! nat (mo - 1) + (if mo - 1 = 2 \<and> leapyear then 1 else 0)))
                    + 1)
              else (yr, mo, n - preceding + 1))"

text \<open>The field values the \<open>datetime\<close> constructor accepts (it raises \<open>ValueError\<close> otherwise).\<close>

definition valid_datetime :: "datetime \<Rightarrow> bool" where
  "valid_datetime dt =
     (1 \<le> year dt \<and> year dt \<le> 9999 \<and> 1 \<le> month dt \<and> month dt \<le> 12 \<and>
      1 \<le> day dt \<and> day dt \<le> days_in_month (year dt) (month dt) \<and>
      0 \<le> hour dt \<and> hour dt \<le> 23 \<and> 0 \<le> minute dt \<and> minute dt \<le> 59 \<and>
      0 \<le> second dt \<and> second dt \<le> 59 \<and> 0 \<le> microsecond dt \<and> microsecond dt \<le> 999999)"

text \<open>
  A \<open>timedelta\<close> is normalised to days, seconds below 86400 and microseconds below
  \<open>10^6\<close>; the model keeps the number of microseconds it stands for
  (\<open>_to_microseconds\<close>), which determines the three.
\<close>

type_synonym timedelta = int

definition timedelta_hours :: "int \<Rightarrow> timedelta" where
  "timedelta_hours h = h * 3600000000"

definition toordinal :: "datetime \<Rightarrow> int" where
  "toordinal dt = ymd2ord (year dt) (month dt) (day dt)"

text \<open>The position of a \<open>datetime\<close> on the time line, in microseconds.\<close>

definition datetime_us :: "datetime \<Rightarrow> int" where
  "datetime_us dt =
     (toordinal dt * 86400 + hour dt * 3600 + minute dt * 60 + second dt) * 1000000
       + microsecond dt"

text \<open>\<open>datetime.__sub__\<close>: the difference of the ordinals, seconds and microseconds.\<close>

definition datetime_sub :: "datetime \<Rightarrow> datetime \<Rightarrow> timedelta" where
  "datetime_sub a b = datetime_us a - datetime_us b"

text \<open>
  \<open>datetime.__add__\<close>:
  \<^verbatim>\<open>
    delta = timedelta(self.toordinal(), hours=self._hour, minutes=self._minute,
                      seconds=self._second, microseconds=self._microsecond)
    delta += other
    hour, rem = divmod(delta.seconds, 3600)
    minute, second = divmod(rem, 60)
    if 0 < delta.days <= _MAXORDINAL:
        return type(self).combine(date.fromordinal(delta.days),
                                  time(hour, minute, second, delta.microseconds, ...))
    raise OverflowError("result out of range")
  \<close>
\<close>

definition datetime_add :: "datetime \<Rightarrow> timedelta \<Rightarrow> datetime result" where
  "datetime_add dt td =
     (let delta = datetime_us dt + td;
          days = delta div 86400000000;
          seconds = delta mod 86400000000 div 1000000;
          microseconds = delta mod 1000000;
          hr = seconds div 3600; rem = seconds mod 3600;
          mi = rem div 60; sc = rem mod 60
      in if 0 < days \<and> days \<le> MAXORDINAL
         then (case ord2ymd days of (y, m, d) \<Rightarrow>
                 Return \<lparr>year = y, month = m, day = d, hour = hr, minute = mi, second = sc,
                         microsecond = microseconds\<rparr>)
         else Raise OverflowError)"

text \<open>
  \<open>int(a / b)\<close> for two \<open>timedelta\<close>s: \<open>a / b\<close> divides the two microsecond counts
  (\<open>ZeroDivisionError\<close> for a zero divisor) and \<open>int\<close> truncates toward zero. Python
  passes the quotient through a binary64 float, correctly rounded; the model takes the
  exact quotient, which gives the same integer whenever the dividend is below \<open>2^53\<close>
  microseconds (some 285 years).
\<close>

definition int_truediv :: "timedelta \<Rightarrow> timedelta \<Rightarrow> int result" where
  "int_truediv a b =
     (if b = 0 then Raise ZeroDivisionError
      else Return (sgn a * sgn b * (\<bar>a\<bar> div \<bar>b\<bar>)))"

text \<open>A list comprehension: the first element that raises ends it.\<close>

fun collect :: "'a result list \<Rightarrow> 'a list result" where
  "collect [] = Return []"
| "collect (Raise e # rs) = Raise e"
| "collect (Return x # rs) = (case collect rs of Raise e \<Rightarrow> Raise e | Return xs \<Rightarrow> Return (x # xs))"

text \<open>
  Line 78 of the source, with the three constants of lines 73 to 75 as parameters:
  \<^verbatim>\<open>
    data_list = [start_date + i * delta
                 for i in range(int((end_date - start_date) / delta))]
  \<close>
\<close>

definition enumerate_dates :: "datetime \<Rightarrow> datetime \<Rightarrow> timedelta \<Rightarrow> datetime list result" where
  "enumerate_dates start_date end_date delta =
     (case int_truediv (datetime_sub end_date start_date) delta of
        Raise e \<Rightarrow> Raise e
      | Return n \<Rightarrow> collect (map (\<lambda>i. datetime_add start_date (int i * delta)) [0..<nat n]))"

definition start_date :: datetime where
  "start_date = mk_datetime 2010 5 1 0 0 0"

definition end_date :: datetime where
  "end_date = mk_datetime 2024 5 1 0 0 0"

definition delta :: timedelta where
  "delta = timedelta_hours 1"

definition data_list :: "datetime list result" where
  "data_list = enumerate_dates start_date end_date delta"

subsection \<open>Tensors and \<open>data[:, 512]\<close>\<close>

text \<open>
  A tensor is its shape and its elements in row-major order. The elements are copied,
  never computed with, so their type is left open.
\<close>

datatype 'a tensor = Tensor (shape: "nat list") (storage: "'a list")

definition wf_tensor :: "'a tensor \<Rightarrow> bool" where
  "wf_tensor t = (length (storage t) = prod_list (shape t))"

text \<open>The element at a multi-index, and the multi-indices inside a shape.\<close>

fun flat_index :: "nat list \<Rightarrow> nat list \<Rightarrow> nat" where
  "flat_index (d # ds) (i # is) = i * prod_list ds + flat_index ds is"
| "flat_index ds is = 0"

fun in_shape :: "nat list \<Rightarrow> nat list \<Rightarrow> bool" where
  "in_shape [] [] = True"
| "in_shape (d # ds) (i # is) = (i < d \<and> in_shape ds is)"
| "in_shape ds is = False"

definition tensor_at :: "'a tensor \<Rightarrow> nat list \<Rightarrow> 'a" where
  "tensor_at t ix = storage t ! flat_index (shape t) ix"

text \<open>
  \<open>data[:, j]\<close> for \<open>j \<ge> 0\<close>: all of dimension 0, index \<open>j\<close> of dimension 1. It raises
  \<open>IndexError\<close> when the tensor has fewer than two dimensions or \<open>j\<close> is not below the
  size of dimension 1.
\<close>

definition index_column :: "'a tensor \<Rightarrow> nat \<Rightarrow> 'a tensor result" where
  "index_column data j =
     (case shape data of
        d0 # d1 # rest \<Rightarrow>
          if j < d1
          then Return (Tensor (d0 # rest)
                 (map (\<lambda>n. storage data !
                         ((n div prod_list rest * d1 + j) * prod_list rest + n mod prod_list rest))
                    [0..<d0 * prod_list rest]))
          else Raise IndexError
      | _ \<Rightarrow> Raise IndexError)"

subsection \<open>The file system\<close>

text \<open>
  What a path names: a directory, or a file that holds a tensor written by
  \<open>torch.save\<close> or bytes that \<open>torch.load\<close> rejects. The file system maps absolute,
  normalised paths to entries; the root always is a directory. Permissions and full
  disks are not modelled.
\<close>

datatype 'a blob = Pickled "'a tensor" | Corrupt

datatype 'a entry = Dir | File "'a blob"

type_synonym 'a fs = "string \<Rightarrow> 'a entry option"

definition entry_at :: "'a fs \<Rightarrow> string \<Rightarrow> 'a entry option" where
  "entry_at fs p = (if p = ''/'' then Some Dir else fs p)"

text \<open>The directories above a path, outermost first: \<open>/a/b/c\<close> has \<open>/a\<close> and \<open>/a/b\<close>.\<close>

fun prefixes :: "string \<Rightarrow> string \<Rightarrow> string list" where
  "prefixes acc [] = []"
| "prefixes acc (c # cs) =
     (if c = CHR ''/'' \<and> acc \<noteq> [] then [acc] else []) @ prefixes (acc @ [c]) cs"

definition ancestors :: "string \<Rightarrow> string list" where
  "ancestors p = prefixes [] p"

text \<open>
  Path lookup walks the directories above the path: a missing one is \<open>ENOENT\<close>
  (\<open>FileNotFoundError\<close>), one that is a file is \<open>ENOTDIR\<close> (\<open>NotADirectoryError\<close>).
\<close>

fun walk :: "'a fs \<Rightarrow> string list \<Rightarrow> exn option" where
  "walk fs [] = None"
| "walk fs (d # ds) =
     (case entry_at fs d of
        None \<Rightarrow> Some FileNotFoundError
      | Some (File b) \<Rightarrow> Some NotADirectoryError
      | Some Dir \<Rightarrow> walk fs ds)"

definition stat :: "'a fs \<Rightarrow> string \<Rightarrow> 'a entry result" where
  "stat fs p =
     (case walk fs (ancestors p) of
        Some e \<Rightarrow> Raise e
      | None \<Rightarrow> (case entry_at fs p of None \<Rightarrow> Raise FileNotFoundError | Some en \<Rightarrow> Return en))"

definition os_path_exists :: "'a fs \<Rightarrow> string \<Rightarrow> bool" where
  "os_path_exists fs p = (case stat fs p of Return en \<Rightarrow> True | Raise e \<Rightarrow> False)"

definition os_path_isdir :: "'a fs \<Rightarrow> string \<Rightarrow> bool" where
  "os_path_isdir fs p = (case stat fs p of Return Dir \<Rightarrow> True | _ \<Rightarrow> False)"

text \<open>\<open>torch.load(path)\<close> opens the path for reading and unpickles what it holds.\<close>

definition torch_load :: "'a fs \<Rightarrow> string \<Rightarrow> 'a tensor result" where
  "torch_load fs p =
     (case stat fs p of
        Raise e \<Rightarrow> Raise e
      | Return Dir \<Rightarrow> Raise IsADirectoryError
      | Return (File Corrupt) \<Rightarrow> Raise UnpicklingError
      | Return (File (Pickled t)) \<Rightarrow> Return t)"

text \<open>
  \<open>torch.save(obj, path)\<close> opens the path for writing, which creates the file or
  truncates the one that is there, and writes the tensor.
\<close>

definition torch_save :: "'a tensor \<Rightarrow> string \<Rightarrow> 'a fs \<Rightarrow> unit result \<times> 'a fs" where
  "torch_save obj p fs =
     (if p = [] then (Raise FileNotFoundError, fs)
      else case walk fs (ancestors p) of
        Some e \<Rightarrow> (Raise e, fs)
      | None \<Rightarrow>
          (case entry_at fs p of
             Some Dir \<Rightarrow> (Raise IsADirectoryError, fs)
           | _ \<Rightarrow> (Return (), fs(p \<mapsto> File (Pickled obj)))))"

definition os_mkdir :: "string \<Rightarrow> 'a fs \<Rightarrow> unit result \<times> 'a fs" where
  "os_mkdir p fs =
     (if p = [] then (Raise FileNotFoundError, fs)
      else case walk fs (ancestors p) of
        Some e \<Rightarrow> (Raise e, fs)
      | None \<Rightarrow>
          (case entry_at fs p of
             Some en \<Rightarrow> (Raise FileExistsError, fs)
           | None \<Rightarrow> (Return (), fs(p \<mapsto> Dir))))"

text \<open>
  \<open>posixpath.split\<close> and \<open>posixpath.dirname\<close>:
  \<^verbatim>\<open>
    i = p.rfind(sep) + 1
    head, tail = p[:i], p[i:]
    if head and head != sep*len(head):
        head = head.rstrip(sep)
    return head, tail
  \<close>
\<close>

definition os_path_split :: "string \<Rightarrow> string \<times> string" where
  "os_path_split p =
     (let tail = rev (takeWhile (\<lambda>c. c \<noteq> CHR ''/'') (rev p));
          head = rev (dropWhile (\<lambda>c. c \<noteq> CHR ''/'') (rev p))
      in (if head \<noteq> [] \<and> head \<noteq> replicate (length head) (CHR ''/'')
          then rev (dropWhile (\<lambda>c. c = CHR ''/'') (rev head)) else head,
          tail))"

definition os_path_dirname :: "string \<Rightarrow> string" where
  "os_path_dirname p = fst (os_path_split p)"

text \<open>
  \<open>os.makedirs(name, exist_ok=True)\<close>:
  \<^verbatim>\<open>
    head, tail = path.split(name)
    if not tail:
        head, tail = path.split(head)
    if head and tail and not path.exists(head):
        try:
            makedirs(head, exist_ok=exist_ok)
        except FileExistsError:
            pass
        if tail == curdir:
            return
    try:
        mkdir(name, mode)
    except OSError:
        if not exist_ok or not path.isdir(name):
            raise
  \<close>
\<close>

definition makedirs_split :: "string \<Rightarrow> string \<times> string" where
  "makedirs_split name =
     (case os_path_split name of
        (head, tail) \<Rightarrow> if tail = [] then os_path_split head else (head, tail))"

definition mkdir_exist_ok :: "string \<Rightarrow> 'a fs \<Rightarrow> unit result \<times> 'a fs" where
  "mkdir_exist_ok name fs =
     (case os_mkdir name fs of
        (Raise e, fs1) \<Rightarrow>
          if isinstance_OSError e \<and> os_path_isdir fs1 name then (Return (), fs1)
          else (Raise e, fs1)
      | (Return u, fs1) \<Rightarrow> (Return u, fs1))"

lemma length_os_path_split_fst: "length (fst (os_path_split p)) \<le> length p"
proof -
  have a: "length (dropWhile P xs) \<le> length xs" for P and xs :: string
    by (induction xs) auto
  have "length (rev (dropWhile (\<lambda>c. c = CHR ''/'') (rev (rev (dropWhile (\<lambda>c. c \<noteq> CHR ''/'') (rev p))))))
          \<le> length (dropWhile (\<lambda>c. c \<noteq> CHR ''/'') (rev p))"
    using a [of "\<lambda>c. c = CHR ''/''" "dropWhile (\<lambda>c. c \<noteq> CHR ''/'') (rev p)"] by simp
  moreover have "length (dropWhile (\<lambda>c. c \<noteq> CHR ''/'') (rev p)) \<le> length p"
    using a [of "\<lambda>c. c \<noteq> CHR ''/''" "rev p"] by simp
  ultimately show ?thesis
    by (simp add: os_path_split_def Let_def)
qed

lemma length_os_path_split_tail:
  assumes "snd (os_path_split p) \<noteq> []"
  shows "length (fst (os_path_split p)) < length p"
proof -
  have a: "length (dropWhile P xs) \<le> length xs" for P and xs :: string
    by (induction xs) auto
  let ?d = "dropWhile (\<lambda>c. c \<noteq> CHR ''/'') (rev p)"
  let ?t = "takeWhile (\<lambda>c. c \<noteq> CHR ''/'') (rev p)"
  have "length ?t + length ?d = length p"
    using takeWhile_dropWhile_id [of "\<lambda>c. c \<noteq> CHR ''/''" "rev p"]
    by (metis length_append length_rev)
  moreover have "?t \<noteq> []"
    using assms by (simp add: os_path_split_def Let_def)
  ultimately have "length ?d < length p"
    by (cases ?t) auto
  moreover have "length (fst (os_path_split p)) \<le> length ?d"
    using a [of "\<lambda>c. c = CHR ''/''" "?d"] by (simp add: os_path_split_def Let_def)
  ultimately show ?thesis by simp
qed

lemma length_makedirs_split:
  assumes "snd (makedirs_split name) \<noteq> []"
  shows "length (fst (makedirs_split name)) < length name"
proof (cases "snd (os_path_split name) = []")
  case True
  then have eq: "makedirs_split name = os_path_split (fst (os_path_split name))"
    by (cases "os_path_split name") (simp add: makedirs_split_def)
  with assms have "length (fst (makedirs_split name)) < length (fst (os_path_split name))"
    using length_os_path_split_tail [of "fst (os_path_split name)"] by simp
  then show ?thesis
    using length_os_path_split_fst [of name] by simp
next
  case False
  then have "makedirs_split name = os_path_split name"
    by (cases "os_path_split name") (simp add: makedirs_split_def)
  then show ?thesis
    using False length_os_path_split_tail [of name] by simp
qed

function makedirs :: "string \<Rightarrow> 'a fs \<Rightarrow> unit result \<times> 'a fs" where
  "makedirs name fs =
     (if fst (makedirs_split name) \<noteq> [] \<and> snd (makedirs_split name) \<noteq> [] \<and>
         \<not> os_path_exists fs (fst (makedirs_split name))
      then
        (case makedirs (fst (makedirs_split name)) fs of
           (Raise e, fs1) \<Rightarrow>
             if e = FileExistsError
             then (if snd (makedirs_split name) = ''.'' then (Return (), fs1)
                   else mkdir_exist_ok name fs1)
             else (Raise e, fs1)
         | (Return u, fs1) \<Rightarrow>
             if snd (makedirs_split name) = ''.'' then (Return (), fs1)
             else mkdir_exist_ok name fs1)
      else mkdir_exist_ok name fs)"
  by pat_completeness auto
termination
  by (relation "measure (\<lambda>(name, fs). length name)") (auto simp: length_makedirs_split)

declare makedirs.simps [simp del]

subsection \<open>\<open>sel_mid_line\<close>\<close>

text \<open>What the script prints, one constructor for each \<open>print\<close> of the source.\<close>

datatype log_line =
    Processed datetime
  | NoDataFound datetime
  | ErrorProcessing datetime exn
  | OutputSaved string
  | FailedToProcess datetime exn

record 'a world =
  files :: "'a fs"
  stdout :: "log_line list"

definition print :: "log_line \<Rightarrow> 'a world \<Rightarrow> 'a world" where
  "print l w = w\<lparr>stdout := stdout w @ [l]\<rparr>"

text \<open>
  The body of the \<open>try\<close> (lines 39 to 53): the first statement that raises ends it,
  and what was done before stays done.
\<close>

definition sel_mid_line_try ::
  "string \<Rightarrow> string \<Rightarrow> datetime \<Rightarrow> 'a world \<Rightarrow> string result \<times> 'a world" where
  "sel_mid_line_try input_dir output_dir date_time w =
     (case torch_load (files w) (data_path input_dir date_time) of
        Raise e \<Rightarrow> (Raise e, w)
      | Return data \<Rightarrow>
          (case index_column data 512 of
             Raise e \<Rightarrow> (Raise e, w)
           | Return mid_line_data \<Rightarrow>
               (case makedirs (os_path_dirname (output_path output_dir date_time)) (files w) of
                  (Raise e, fs1) \<Rightarrow> (Raise e, w\<lparr>files := fs1\<rparr>)
                | (Return u, fs1) \<Rightarrow>
                    (case torch_save mid_line_data (output_path output_dir date_time) fs1 of
                       (Raise e, fs2) \<Rightarrow> (Raise e, w\<lparr>files := fs2\<rparr>)
                     | (Return v, fs2) \<Rightarrow>
                         (Return (output_path output_dir date_time),
                          print (Processed date_time) (w\<lparr>files := fs2\<rparr>))))))"

text \<open>
  The two \<open>except\<close> clauses (lines 55 to 58) and \<open>return None\<close> (line 60). An exception
  that neither clause matches would leave the function.
\<close>

definition sel_mid_line ::
  "string \<Rightarrow> string \<Rightarrow> datetime \<Rightarrow> 'a world \<Rightarrow> string option result \<times> 'a world" where
  "sel_mid_line input_dir output_dir date_time w =
     (case sel_mid_line_try input_dir output_dir date_time w of
        (Return p, w1) \<Rightarrow> (Return (Some p), w1)
      | (Raise e, w1) \<Rightarrow>
          if e = FileNotFoundError then (Return None, print (NoDataFound date_time) w1)
          else if isinstance_Exception e
          then (Return None, print (ErrorProcessing date_time e) w1)
          else (Raise e, w1))"

subsection \<open>\<open>main\<close>: the loop over the futures\<close>

text \<open>
  Lines 86 to 93, for the futures in the order \<open>as_completed\<close> yields them.
  \<open>future.result()\<close> returns the task's value or raises its exception; \<open>if result\<close>
  holds for a string that is not empty.
\<close>

fun as_completed_loop ::
  "(datetime \<times> string option result) list \<Rightarrow> 'a world \<Rightarrow> unit result \<times> 'a world" where
  "as_completed_loop [] w = (Return (), w)"
| "as_completed_loop ((date, Return result) # futures) w =
     (case result of
        Some p \<Rightarrow>
          if p \<noteq> [] then as_completed_loop futures (print (OutputSaved p) w)
          else as_completed_loop futures w
      | None \<Rightarrow> as_completed_loop futures w)"
| "as_completed_loop ((date, Raise e) # futures) w =
     (if isinstance_Exception e
      then as_completed_loop futures (print (FailedToProcess date e) w)
      else (Raise e, w))"

subsection \<open>\<open>main\<close>: the pool of worker threads\<close>

text \<open>
  \<open>ThreadPoolExecutor(max_workers=num_cpus)\<close> runs up to \<open>num_cpus\<close> calls of
  \<open>sel_mid_line\<close> at the same time, on one file system, while the main thread reads
  the futures that are done. A task is followed through the statements of its \<open>try\<close>
  body that touch the file system: queued; loaded and sliced (lines 45 and 46);
  directory made (line 49); done, when the future holds what \<open>sel_mid_line\<close> returned
  or raised; collected, when the loop of lines 86 to 93 has read the future.
\<close>

datatype 'a task_state =
    Queued
  | Sliced "'a tensor"
  | DirReady "'a tensor"
  | Done "string option result"
  | Collected "string option result"

text \<open>Lines 55 to 60, as they end a task whose \<open>try\<close> body raised \<open>e\<close>.\<close>

definition except_clauses :: "datetime \<Rightarrow> exn \<Rightarrow> 'a world \<Rightarrow> 'a task_state \<times> 'a world" where
  "except_clauses date_time e w =
     (if e = FileNotFoundError then (Done (Return None), print (NoDataFound date_time) w)
      else if isinstance_Exception e
      then (Done (Return None), print (ErrorProcessing date_time e) w)
      else (Done (Raise e), w))"

text \<open>
  One step of a task: the next of \<open>torch.load\<close> with the slice, \<open>os.makedirs\<close> and
  \<open>torch.save\<close> with the line printed after it. Each is taken as one indivisible
  access to the file system.
\<close>

definition task_step ::
  "string \<Rightarrow> string \<Rightarrow> datetime \<Rightarrow> 'a task_state \<Rightarrow> 'a world \<Rightarrow> 'a task_state \<times> 'a world" where
  "task_step input_dir output_dir date_time st w =
     (case st of
        Queued \<Rightarrow>
          (case torch_load (files w) (data_path input_dir date_time) of
             Raise e \<Rightarrow> except_clauses date_time e w
           | Return data \<Rightarrow>
               (case index_column data 512 of
                  Raise e \<Rightarrow> except_clauses date_time e w
                | Return mid_line_data \<Rightarrow> (Sliced mid_line_data, w)))
      | Sliced mid_line_data \<Rightarrow>
          (case makedirs (os_path_dirname (output_path output_dir date_time)) (files w) of
             (Raise e, fs1) \<Rightarrow> except_clauses date_time e (w\<lparr>files := fs1\<rparr>)
           | (Return u, fs1) \<Rightarrow> (DirReady mid_line_data, w\<lparr>files := fs1\<rparr>))
      | DirReady mid_line_data \<Rightarrow>
          (case torch_save mid_line_data (output_path output_dir date_time) (files w) of
             (Raise e, fs2) \<Rightarrow> except_clauses date_time e (w\<lparr>files := fs2\<rparr>)
           | (Return u, fs2) \<Rightarrow>
               (Done (Return (Some (output_path output_dir date_time))),
                print (Processed date_time) (w\<lparr>files := fs2\<rparr>)))
      | Done r \<Rightarrow> (Done r, w)
      | Collected r \<Rightarrow> (Collected r, w))"

text \<open>
  The state of a run: the file system and the lines printed so far, the state of the
  task of each date, and the exception that has left the loop over the futures, if
  one has.
\<close>

record 'a config =
  world :: "'a world"
  states :: "'a task_state list"
  raised :: "exn option"

definition running :: "'a task_state \<Rightarrow> bool" where
  "running st = (case st of Sliced m \<Rightarrow> True | DirReady m \<Rightarrow> True | _ \<Rightarrow> False)"

definition finished :: "'a task_state \<Rightarrow> bool" where
  "finished st = (case st of Done r \<Rightarrow> True | Collected r \<Rightarrow> True | _ \<Rightarrow> False)"

definition collected :: "'a task_state \<Rightarrow> bool" where
  "collected st = (case st of Collected r \<Rightarrow> True | _ \<Rightarrow> False)"

text \<open>
  What the scheduler may do next: let a worker run the next step of task \<open>k\<close>, or let
  the main thread read the future of task \<open>k\<close>. A queued task starts only when every
  task submitted before it has started and fewer than \<open>num_cpus\<close> tasks are running;
  a future is read only when it is done and no exception has left the loop.
\<close>

datatype action = Work nat | Collect nat

definition can_work :: "nat \<Rightarrow> 'a task_state list \<Rightarrow> nat \<Rightarrow> bool" where
  "can_work workers sts k =
     (k < length sts \<and>
      (case sts ! k of
         Queued \<Rightarrow> list_all (\<lambda>st. st \<noteq> Queued) (take k sts) \<and>
                    length (filter running sts) < workers
       | Sliced m \<Rightarrow> True
       | DirReady m \<Rightarrow> True
       | _ \<Rightarrow> False))"

definition scheduler_step ::
  "nat \<Rightarrow> string \<Rightarrow> string \<Rightarrow> datetime list \<Rightarrow> action \<Rightarrow> 'a config \<Rightarrow> 'a config option" where
  "scheduler_step workers input_dir output_dir dates a c =
     (case a of
        Work k \<Rightarrow>
          if can_work workers (states c) k
          then (case task_step input_dir output_dir (dates ! k) (states c ! k) (world c) of
                  (st, w) \<Rightarrow> Some (c\<lparr>world := w, states := (states c)[k := st]\<rparr>))
          else None
      | Collect k \<Rightarrow>
          if k < length (states c) \<and> raised c = None
          then (case states c ! k of
                  Done r \<Rightarrow>
                    (case as_completed_loop [(dates ! k, r)] (world c) of
                       (Return u, w) \<Rightarrow>
                         Some (c\<lparr>world := w, states := (states c)[k := Collected r]\<rparr>)
                     | (Raise e, w) \<Rightarrow>
                         Some (c\<lparr>world := w, states := (states c)[k := Collected r],
                                 raised := Some e\<rparr>))
                | _ \<Rightarrow> None)
          else None)"

text \<open>A schedule is the list of what the scheduler does; one that asks for a step
  that cannot be taken is no run of the program.\<close>

fun exec ::
  "nat \<Rightarrow> string \<Rightarrow> string \<Rightarrow> datetime list \<Rightarrow> action list \<Rightarrow> 'a config \<Rightarrow> 'a config option" where
  "exec workers input_dir output_dir dates [] c = Some c"
| "exec workers input_dir output_dir dates (a # as) c =
     (case scheduler_step workers input_dir output_dir dates a c of
        None \<Rightarrow> None
      | Some c' \<Rightarrow> exec workers input_dir output_dir dates as c')"

definition submitted :: "datetime list \<Rightarrow> 'a world \<Rightarrow> 'a config" where
  "submitted dates w = \<lparr>world = w, states = map (\<lambda>date. Queued) dates, raised = None\<rparr>"

text \<open>
  The \<open>with\<close> block ends when every task has finished; the loop ends when every future
  has been read, or with the exception that left it.
\<close>

definition complete :: "'a config \<Rightarrow> bool" where
  "complete c =
     (case raised c of
        None \<Rightarrow> list_all collected (states c)
      | Some e \<Rightarrow> list_all finished (states c))"

text \<open>
  Lines 81 to 93 under a schedule: \<open>None\<close> when the schedule is no complete run,
  otherwise how the block ends and the final state. A pool of no workers is refused
  with \<open>ValueError\<close> before anything is submitted.
\<close>

definition run_batch ::
  "int \<Rightarrow> string \<Rightarrow> string \<Rightarrow> datetime list \<Rightarrow> action list \<Rightarrow> 'a world \<Rightarrow>
     (unit result \<times> 'a config) option" where
  "run_batch num_cpus input_dir output_dir dates schedule w =
     (if num_cpus \<le> 0
      then Some (Raise ValueError, \<lparr>world = w, states = [], raised = None\<rparr>)
      else
        case exec (nat num_cpus) input_dir output_dir dates schedule (submitted dates w) of
          None \<Rightarrow> None
        | Some c \<Rightarrow>
            if complete c
            then Some (case raised c of None \<Rightarrow> Return () | Some e \<Rightarrow> Raise e, c)
            else None)"

text \<open>
  \<open>main\<close>, with the parsed arguments as parameters. The date list is built first; an
  exception there leaves \<open>main\<close>.
\<close>

definition main ::
  "int \<Rightarrow> string \<Rightarrow> string \<Rightarrow> action list \<Rightarrow> 'a world \<Rightarrow> (unit result \<times> 'a config) option" where
  "main num_cpus input_dir output_dir schedule w =
     (case data_list of
        Raise e \<Rightarrow> Some (Raise e, \<lparr>world = w, states = [], raised = None\<rparr>)
      | Return dates \<Rightarrow> run_batch num_cpus input_dir output_dir dates schedule w)"


lemma zpad_2: "zpad 2 n = [digit (n div 10 mod 10), digit (n mod 10)]"
  by (simp add: numeral_2_eq_2)

lemma zpad_4:
  "zpad 4 n =
     [digit (n div 1000 mod 10), digit (n div 100 mod 10), digit (n div 10 mod 10),
      digit (n mod 10)]"
proof -
  have "n div 10 div 10 = n div 100" "n div 10 div 10 div 10 = n div 1000"
    by (simp_all add: div_mult2_eq [symmetric])
  then show ?thesis by (simp add: eval_nat_numeral)
qed

lemma strftime_path_format:
  "strftime path_format dt =
     ''/'' @ zpad 4 (year dt) @ ''/'' @ zpad 2 (month dt) @ ''/'' @ zpad 2 (day dt) @
     ''/hmi.M_720s.'' @ zpad 4 (year dt) @ zpad 2 (month dt) @ zpad 2 (day dt) @
     ''_'' @ zpad 2 (hour dt) @ zpad 2 (minute dt) @ zpad 2 (second dt)"
  by (simp add: path_format_def directive_def)

section \<open>Paths and directories\<close>

lemma digit_mod_cases:
  "digit (n mod 10) \<in> set ''0123456789''"
proof -
  have "0 \<le> n mod 10" "n mod 10 < 10" by simp_all
  then have "nat (n mod 10) < 10" by linarith
  then have "''0123456789'' ! nat (n mod 10) \<in> set ''0123456789''"
    by (intro nth_mem) simp
  then show ?thesis by (simp only: digit_def)
qed

lemma digit_mod_neq_slash [simp]: "digit (n mod 10) \<noteq> CHR ''/''" "CHR ''/'' \<noteq> digit (n mod 10)"
  using digit_mod_cases [of n] by auto

lemma length_zpad [simp]: "length (zpad w n) = w"
  by (induction w arbitrary: n) auto

lemma data_path_eq: "data_path input_dir t = relevant_path t"
  by (simp add: data_path_def relevant_path_def strftime_path_format os_path_join_def)

lemma output_path_eq: "output_path output_dir t = strftime path_format t @ ''_midline.pt''"
  by (simp add: output_path_def strftime_path_format os_path_join_def)

definition year_dir :: "datetime \<Rightarrow> string" where
  "year_dir t = ''/'' @ zpad 4 (year t)"

definition month_dir :: "datetime \<Rightarrow> string" where
  "month_dir t = year_dir t @ ''/'' @ zpad 2 (month t)"

definition day_dir :: "datetime \<Rightarrow> string" where
  "day_dir t = month_dir t @ ''/'' @ zpad 2 (day t)"

lemmas dir_defs = year_dir_def month_dir_def day_dir_def

lemma ancestors_data_path: "ancestors (data_path input_dir t) = [year_dir t, month_dir t, day_dir t]"
  by (simp add: data_path_eq relevant_path_def strftime_path_format zpad_2 zpad_4 ancestors_def dir_defs)

lemma ancestors_output_path: "ancestors (output_path output_dir t) = [year_dir t, month_dir t, day_dir t]"
  by (simp add: output_path_eq strftime_path_format zpad_2 zpad_4 ancestors_def dir_defs)

lemma dirname_output_path: "os_path_dirname (output_path output_dir t) = day_dir t"
  by (simp add: output_path_eq strftime_path_format zpad_2 zpad_4 os_path_dirname_def os_path_split_def dir_defs)

lemma ancestors_day_dir: "ancestors (day_dir t) = [year_dir t, month_dir t]"
  by (simp add: zpad_2 zpad_4 ancestors_def dir_defs)

lemma ancestors_month_dir: "ancestors (month_dir t) = [year_dir t]"
  by (simp add: zpad_2 zpad_4 ancestors_def dir_defs)

lemma makedirs_split_day_dir: "makedirs_split (day_dir t) = (month_dir t, zpad 2 (day t))"
  by (simp add: zpad_2 zpad_4 makedirs_split_def os_path_split_def dir_defs)

section \<open>What \<open>sel_mid_line\<close> does, case by case\<close>

lemma isinstance_Exception_all [simp]: "isinstance_Exception e"
  by (cases e) simp_all

lemma walk_date_dirs:
  "walk fs [year_dir t, month_dir t, day_dir t] = None \<longleftrightarrow>
     entry_at fs (year_dir t) = Some Dir \<and> entry_at fs (month_dir t) = Some Dir \<and>
     entry_at fs (day_dir t) = Some Dir"
  by (auto split: option.splits entry.splits)

lemma torch_load_walk:
  "torch_load fs (data_path input_dir t) = Return data \<Longrightarrow>
     walk fs [year_dir t, month_dir t, day_dir t] = None"
  by (auto simp: torch_load_def stat_def ancestors_data_path split: option.splits)

lemma makedirs_existing:
  assumes "walk fs [year_dir t, month_dir t, day_dir t] = None"
  shows "makedirs (os_path_dirname (output_path output_dir t)) fs = (Return (), fs)"
proof -
  from assms have d: "entry_at fs (year_dir t) = Some Dir"
    "entry_at fs (month_dir t) = Some Dir" "entry_at fs (day_dir t) = Some Dir"
    by (simp_all only: walk_date_dirs)
  have ex: "os_path_exists fs (month_dir t)"
    using d by (simp add: os_path_exists_def stat_def ancestors_month_dir)
  have ne: "day_dir t \<noteq> []" "month_dir t \<noteq> []" "zpad 2 (day t) \<noteq> []"
    by (simp_all add: dir_defs zpad_2)
  have isdir: "os_path_isdir fs (day_dir t)"
    using d by (simp add: os_path_isdir_def stat_def ancestors_day_dir)
  have "mkdir_exist_ok (day_dir t) fs = (Return (), fs)"
    using d ne isdir by (simp add: mkdir_exist_ok_def os_mkdir_def ancestors_day_dir)
  then show ?thesis
    using ex ne by (simp add: dirname_output_path makedirs.simps [of "day_dir t"] makedirs_split_day_dir)
qed

lemma output_path_not_root [simp]: "output_path output_dir t \<noteq> ''/''" "output_path output_dir t \<noteq> []"
  by (simp_all add: output_path_eq strftime_path_format)

lemma torch_save_output:
  assumes "walk fs [year_dir t, month_dir t, day_dir t] = None"
  shows "torch_save col (output_path output_dir t) fs =
     (if fs (output_path output_dir t) = Some Dir then (Raise IsADirectoryError, fs)
      else (Return (), fs(output_path output_dir t \<mapsto> File (Pickled col))))"
  using assms
  by (auto simp: torch_save_def ancestors_output_path entry_at_def split: option.splits entry.splits)

lemma sel_mid_line_try_loaded:
  assumes "torch_load (files w) (data_path input_dir t) = Return data"
    and "index_column data 512 = Return col"
  shows "sel_mid_line_try input_dir output_dir t w =
     (if files w (output_path output_dir t) = Some Dir then (Raise IsADirectoryError, w)
      else (Return (output_path output_dir t),
            print (Processed t)
              (w\<lparr>files := (files w)(output_path output_dir t \<mapsto> File (Pickled col))\<rparr>)))"
proof -
  have wk: "walk (files w) [year_dir t, month_dir t, day_dir t] = None"
    using assms(1) by (rule torch_load_walk)
  show ?thesis
    using assms by (simp add: sel_mid_line_try_def makedirs_existing [OF wk] torch_save_output [OF wk])
qed

lemma sel_mid_line_load_raises:
  assumes "torch_load (files w) (data_path input_dir t) = Raise e"
  shows "sel_mid_line input_dir output_dir t w =
     (Return None, print (if e = FileNotFoundError then NoDataFound t else ErrorProcessing t e) w)"
  using assms by (simp add: sel_mid_line_def sel_mid_line_try_def)

lemma sel_mid_line_index_raises:
  assumes "torch_load (files w) (data_path input_dir t) = Return data"
    and "index_column data 512 = Raise e"
  shows "sel_mid_line input_dir output_dir t w = (Return None, print (ErrorProcessing t IndexError) w)"
proof -
  have "e = IndexError"
    using assms(2) by (auto simp: index_column_def split: list.splits if_splits)
  then show ?thesis
    using assms by (simp add: sel_mid_line_def sel_mid_line_try_def)
qed

lemma sel_mid_line_loaded:
  assumes "torch_load (files w) (data_path input_dir t) = Return data"
    and "index_column data 512 = Return col"
  shows "sel_mid_line input_dir output_dir t w =
     (if files w (output_path output_dir t) = Some Dir
      then (Return None, print (ErrorProcessing t IsADirectoryError) w)
      else (Return (Some (output_path output_dir t)),
            print (Processed t)
              (w\<lparr>files := (files w)(output_path output_dir t \<mapsto> File (Pickled col))\<rparr>)))"
  by (simp add: sel_mid_line_def sel_mid_line_try_loaded [OF assms])

section \<open>A concrete date, grid and file system\<close>

definition example_date :: datetime where
  "example_date = mk_datetime 2012 3 4 5 0 0"

definition example_grid :: "int tensor" where
  "example_grid = Tensor [2, 513] (map int [0..<1026])"

definition example_dirs :: "int fs" where
  "example_dirs = [''/2012'' \<mapsto> Dir, ''/2012/03'' \<mapsto> Dir, ''/2012/03/04'' \<mapsto> Dir]"

definition example_input :: string where
  "example_input = ''/2012/03/04/hmi.M_720s.20120304_050000_TAI.pt''"

definition example_output :: string where
  "example_output = ''/2012/03/04/hmi.M_720s.20120304_050000_midline.pt''"

lemma example_data_path: "data_path input_dir example_date = example_input"
  by (simp add: data_path_eq relevant_path_def strftime_path_format example_date_def
      mk_datetime_def zpad_2 zpad_4 digit_def example_input_def)

lemma example_output_path: "output_path output_dir example_date = example_output"
  by (simp add: output_path_eq strftime_path_format example_date_def
      mk_datetime_def zpad_2 zpad_4 digit_def example_output_def)

lemma example_ancestors: "ancestors example_input = [''/2012'', ''/2012/03'', ''/2012/03/04'']"
  by (simp add: ancestors_def example_input_def)

lemma example_load_missing:
  "torch_load example_dirs example_input = Raise FileNotFoundError"
  by (simp add: torch_load_def stat_def example_ancestors example_dirs_def entry_at_def)
     (simp add: example_input_def)

lemma example_load_corrupt:
  "torch_load (example_dirs(example_input \<mapsto> File Corrupt)) example_input = Raise UnpicklingError"
  by (simp add: torch_load_def stat_def example_ancestors example_dirs_def entry_at_def)
     (simp add: example_input_def)

lemma example_load_grid:
  "torch_load (example_dirs(example_input \<mapsto> File (Pickled g))) example_input = Return g"
  by (simp add: torch_load_def stat_def example_ancestors example_dirs_def entry_at_def)
     (simp add: example_input_def)

lemma example_column: "index_column example_grid 512 = Return (Tensor [2] [512, 1025])"
proof -
  have u: "[0..<2::nat] = [0, 1]"
    by (simp add: upt_conv_Cons)
  have "map int [0..<1026] ! 512 = 512" "map int [0..<1026] ! 1025 = 1025"
    by simp_all
  then show ?thesis
    by (simp add: index_column_def example_grid_def u)
qed

section \<open>Column selection\<close>

lemma flat_index_bound: "in_shape ds ix \<Longrightarrow> flat_index ds ix < prod_list ds"
proof (induction ds ix rule: in_shape.induct)
  case (2 d ds i "is")
  then have "i < d" and f: "flat_index ds is < prod_list ds" by simp_all
  then have "Suc i \<le> d" by simp
  then have "Suc i * prod_list ds \<le> d * prod_list ds"
    by (rule mult_le_mono1)
  with f show ?case by simp
qed simp_all

definition column :: "'a tensor \<Rightarrow> nat \<Rightarrow> 'a tensor" where
  "column data j =
     (case shape data of
        d0 # d1 # rest \<Rightarrow>
          Tensor (d0 # rest)
            (map (\<lambda>n. storage data !
                    ((n div prod_list rest * d1 + j) * prod_list rest + n mod prod_list rest))
               [0..<d0 * prod_list rest])
      | _ \<Rightarrow> data)"

lemma index_column_Return:
  assumes "shape data = d0 # d1 # rest" and "j < d1"
  shows "index_column data j = Return (column data j)"
  using assms by (simp add: index_column_def column_def)

lemma index_column_Raise:
  assumes "\<not> (\<exists>d0 d1 rest. shape data = d0 # d1 # rest \<and> j < d1)"
  shows "index_column data j = Raise IndexError"
  using assms by (auto simp: index_column_def split: list.splits)

lemma column_at:
  assumes sh: "shape data = d0 # d1 # rest" and i: "i < d0" and ks: "in_shape rest ks"
  shows "tensor_at (column data j) (i # ks) = tensor_at data (i # j # ks)"
proof -
  let ?P = "prod_list rest"
  let ?f = "flat_index rest ks"
  have f: "?f < ?P" using ks by (rule flat_index_bound)
  have "Suc i * ?P \<le> d0 * ?P"
    using i by (intro mult_le_mono1) simp
  with f have n: "i * ?P + ?f < d0 * ?P" by simp
  have dv: "(i * ?P + ?f) div ?P = i" and md: "(i * ?P + ?f) mod ?P = ?f"
    using f by simp_all
  have "tensor_at (column data j) (i # ks) =
          storage data ! ((i * d1 + j) * ?P + ?f)"
    using sh n f by (simp add: tensor_at_def column_def dv md)
  also have "(i * d1 + j) * ?P + ?f = i * (d1 * ?P) + (j * ?P + ?f)"
    by (simp add: algebra_simps)
  finally show ?thesis
    using sh by (simp add: tensor_at_def)
qed

lemma shape_column: "shape data = d0 # d1 # rest \<Longrightarrow> shape (column data j) = d0 # rest"
  by (simp add: column_def)

lemma wf_column: "shape data = d0 # d1 # rest \<Longrightarrow> wf_tensor (column data j)"
  by (simp add: column_def wf_tensor_def)

section \<open>One equation for \<open>sel_mid_line\<close>\<close>

lemma sel_mid_line_cases:
  "(\<exists>e. torch_load (files w) (data_path input_dir t) = Raise e \<and>
        sel_mid_line input_dir output_dir t w =
          (Return None, print (if e = FileNotFoundError then NoDataFound t else ErrorProcessing t e) w)) \<or>
   (\<exists>data. torch_load (files w) (data_path input_dir t) = Return data \<and>
        index_column data 512 = Raise IndexError \<and>
        sel_mid_line input_dir output_dir t w = (Return None, print (ErrorProcessing t IndexError) w)) \<or>
   (\<exists>data col. torch_load (files w) (data_path input_dir t) = Return data \<and>
        index_column data 512 = Return col \<and>
        files w (output_path output_dir t) = Some Dir \<and>
        sel_mid_line input_dir output_dir t w =
          (Return None, print (ErrorProcessing t IsADirectoryError) w)) \<or>
   (\<exists>data col. torch_load (files w) (data_path input_dir t) = Return data \<and>
        index_column data 512 = Return col \<and>
        files w (output_path output_dir t) \<noteq> Some Dir \<and>
        sel_mid_line input_dir output_dir t w =
          (Return (Some (output_path output_dir t)),
           print (Processed t)
             (w\<lparr>files := (files w)(output_path output_dir t \<mapsto> File (Pickled col))\<rparr>)))"
proof (cases "torch_load (files w) (data_path input_dir t)")
  case (Raise e)
  then show ?thesis by (simp add: sel_mid_line_load_raises)
next
  case (Return data)
  show ?thesis
  proof (cases "index_column data 512")
    case (Raise e)
    have "e = IndexError"
      using Raise by (auto simp: index_column_def split: list.splits if_splits)
    with Return Raise show ?thesis
      by (simp add: sel_mid_line_index_raises [OF Return])
  next
    case col: (Return col)
    show ?thesis
      using Return col by (simp add: sel_mid_line_loaded [OF Return col])
  qed
qed

lemma sel_mid_line_eq:
  "sel_mid_line input_dir output_dir t w =
     (case torch_load (files w) (data_path input_dir t) of
        Raise e \<Rightarrow>
          (Return None, print (if e = FileNotFoundError then NoDataFound t else ErrorProcessing t e) w)
      | Return data \<Rightarrow>
          (case index_column data 512 of
             Raise e \<Rightarrow> (Return None, print (ErrorProcessing t IndexError) w)
           | Return col \<Rightarrow>
               if files w (output_path output_dir t) = Some Dir
               then (Return None, print (ErrorProcessing t IsADirectoryError) w)
               else (Return (Some (output_path output_dir t)),
                     print (Processed t)
                       (w\<lparr>files := (files w)(output_path output_dir t \<mapsto> File (Pickled col))\<rparr>))))"
proof (cases "torch_load (files w) (data_path input_dir t)")
  case (Raise e)
  then show ?thesis by (simp add: sel_mid_line_load_raises)
next
  case ld: (Return data)
  show ?thesis
  proof (cases "index_column data 512")
    case ix: (Raise e)
    have "sel_mid_line input_dir output_dir t w = (Return None, print (ErrorProcessing t IndexError) w)"
      using ld ix by (rule sel_mid_line_index_raises)
    then show ?thesis by (simp add: ld ix)
  next
    case ix: (Return col)
    show ?thesis
      by (simp add: sel_mid_line_loaded [OF ld ix] ld ix)
  qed
qed


section \<open>Tasks do not disturb each other\<close>

lemma length_data_path: "length (data_path input_dir t) = 45"
  by (simp add: data_path_eq relevant_path_def strftime_path_format)

lemma length_output_path: "length (output_path output_dir t) = 49"
  by (simp add: output_path_eq strftime_path_format)

lemma length_dirs: "length (year_dir t) = 5" "length (month_dir t) = 8" "length (day_dir t) = 11"
  by (simp_all add: dir_defs)

text \<open>
  \<open>fs'\<close> differs from \<open>fs\<close> at most in files written at paths of the length of an
  output path, none of them where \<open>fs\<close> has a directory.
\<close>

definition outputs_added :: "'a fs \<Rightarrow> 'a fs \<Rightarrow> bool" where
  "outputs_added fs fs' =
     (\<forall>p. fs' p = fs p \<or> (length p = 49 \<and> fs p \<noteq> Some Dir \<and> (\<exists>b. fs' p = Some (File b))))"

lemma outputs_added_refl: "outputs_added fs fs"
  by (simp add: outputs_added_def)

lemma outputs_added_same:
  assumes "outputs_added fs fs'" and "length p \<noteq> 49"
  shows "fs' p = fs p" and "entry_at fs' p = entry_at fs p"
  using assms by (auto simp: outputs_added_def entry_at_def)

lemma walk_cong: "(\<forall>d \<in> set ds. entry_at fs' d = entry_at fs d) \<Longrightarrow> walk fs' ds = walk fs ds"
  by (induction ds) (simp_all split: option.splits entry.splits)

lemma outputs_added_load:
  assumes "outputs_added fs fs'"
  shows "torch_load fs' (data_path input_dir t) = torch_load fs (data_path input_dir t)"
proof -
  have "entry_at fs' (year_dir t) = entry_at fs (year_dir t)"
    "entry_at fs' (month_dir t) = entry_at fs (month_dir t)"
    "entry_at fs' (day_dir t) = entry_at fs (day_dir t)"
    "entry_at fs' (data_path input_dir t) = entry_at fs (data_path input_dir t)"
    using assms by (simp_all add: outputs_added_same length_dirs length_data_path)
  then have "walk fs' [year_dir t, month_dir t, day_dir t] = walk fs [year_dir t, month_dir t, day_dir t]"
    and "entry_at fs' (data_path input_dir t) = entry_at fs (data_path input_dir t)"
    by (simp_all only: walk.simps)
  then show ?thesis
    by (simp only: torch_load_def stat_def ancestors_data_path)
qed

lemma outputs_added_isdir:
  assumes "outputs_added fs fs'"
  shows "fs' p = Some Dir \<longleftrightarrow> fs p = Some Dir"
proof -
  have "fs' p = fs p \<or> (fs p \<noteq> Some Dir \<and> (\<exists>b. fs' p = Some (File b)))"
    using assms by (auto simp: outputs_added_def)
  then show ?thesis by auto
qed

lemma outputs_added_write:
  assumes "outputs_added fs fs'" and "fs' (output_path output_dir t) \<noteq> Some Dir"
  shows "outputs_added fs (fs'(output_path output_dir t \<mapsto> File b))"
  unfolding outputs_added_def
proof
  fix p
  show "(fs'(output_path output_dir t \<mapsto> File b)) p = fs p \<or>
        length p = 49 \<and> fs p \<noteq> Some Dir \<and>
        (\<exists>ba. (fs'(output_path output_dir t \<mapsto> File b)) p = Some (File ba))"
  proof (cases "p = output_path output_dir t")
    case True
    then show ?thesis
      using assms outputs_added_isdir [OF assms(1), of p] by (simp add: length_output_path)
  next
    case False
    then show ?thesis
      using assms(1) by (simp add: outputs_added_def)
  qed
qed

lemma sel_mid_line_outputs_added:
  assumes "outputs_added (files w) (files w')"
  shows "fst (sel_mid_line input_dir output_dir t w') = fst (sel_mid_line input_dir output_dir t w)"
    and "outputs_added (files w) (files (snd (sel_mid_line input_dir output_dir t w')))"
proof -
  note ld = outputs_added_load [OF assms, of input_dir t]
  note dr = outputs_added_isdir [OF assms, of "output_path output_dir t"]
  show "fst (sel_mid_line input_dir output_dir t w') = fst (sel_mid_line input_dir output_dir t w)"
    by (simp add: sel_mid_line_eq ld dr split: result.splits)
  show "outputs_added (files w) (files (snd (sel_mid_line input_dir output_dir t w')))"
    using assms outputs_added_write [OF assms]
    by (simp add: sel_mid_line_eq print_def split: result.splits)
qed


section \<open>More concrete inputs\<close>

lemma example_column_eq: "column example_grid 512 = Tensor [2] [512, 1025]"
proof -
  have "index_column example_grid 512 = Return (column example_grid 512)"
    by (rule index_column_Return [of _ 2 513 "[]"]) (simp_all add: example_grid_def)
  then show ?thesis by (simp add: example_column)
qed









section \<open>The calendar: \<open>_ord2ymd\<close> inverts \<open>_ymd2ord\<close>\<close>

lemma div_eqI: "a = b * q + r \<Longrightarrow> 0 \<le> r \<Longrightarrow> r < b \<Longrightarrow> a div b = q" for a b q r :: int
  by (rule int_div_pos_eq)

lemma mod_eqI: "a = b * q + r \<Longrightarrow> 0 \<le> r \<Longrightarrow> r < b \<Longrightarrow> a mod b = r" for a b q r :: int
  by (rule int_mod_pos_eq)

text \<open>The quotients of \<open>_ord2ymd\<close> and what is known of them.\<close>

lemma ord_decompose:
  fixes n :: int
  assumes "0 \<le> n"
  defines "a \<equiv> n div 146097"
    and "b \<equiv> n mod 146097 div 36524"
    and "c \<equiv> n mod 146097 mod 36524 div 1461"
    and "e \<equiv> n mod 146097 mod 36524 mod 1461 div 365"
    and "r \<equiv> n mod 146097 mod 36524 mod 1461 mod 365"
  shows "n = 146097 * a + 36524 * b + 1461 * c + 365 * e + r"
    and "0 \<le> a" and "0 \<le> b" and "b \<le> 4" and "0 \<le> c" and "c \<le> 24"
    and "0 \<le> e" and "e \<le> 4" and "0 \<le> r" and "r \<le> 364"
    and "b = 4 \<Longrightarrow> c = 0 \<and> e = 0 \<and> r = 0"
    and "e = 4 \<Longrightarrow> r = 0 \<and> c \<le> 23"
proof -
  define r1 where "r1 = n mod 146097"
  define r2 where "r2 = r1 mod 36524"
  define r3 where "r3 = r2 mod 1461"
  have 1: "n = 146097 * a + r1" "0 \<le> r1" "r1 < 146097"
    by (simp_all add: a_def r1_def)
  have 2: "r1 = 36524 * b + r2" "0 \<le> r2" "r2 < 36524"
    by (simp_all add: b_def r2_def r1_def)
  have 3: "r2 = 1461 * c + r3" "0 \<le> r3" "r3 < 1461"
    by (simp_all add: c_def r3_def r2_def r1_def)
  have 4: "r3 = 365 * e + r" "0 \<le> r" "r < 365"
    by (simp_all add: e_def r_def r3_def r2_def r1_def)
  show "n = 146097 * a + 36524 * b + 1461 * c + 365 * e + r"
    using 1 2 3 4 by linarith
  show "0 \<le> a" using assms(1) by (simp add: a_def pos_imp_zdiv_nonneg_iff)
  show "0 \<le> b" using 2 1 by (simp add: b_def r1_def [symmetric] pos_imp_zdiv_nonneg_iff)
  show "0 \<le> c" using 3 2 by (simp add: c_def r1_def [symmetric] r2_def [symmetric] pos_imp_zdiv_nonneg_iff)
  show e0: "0 \<le> e" using 4 3 by (simp add: e_def r1_def [symmetric] r2_def [symmetric] r3_def [symmetric] pos_imp_zdiv_nonneg_iff)
  show "0 \<le> r" "r \<le> 364" using 4 by simp_all
  have b0: "0 \<le> b" using 2 1 by (simp add: b_def r1_def [symmetric] pos_imp_zdiv_nonneg_iff)
  have c0: "0 \<le> c" using 3 2 by (simp add: c_def r1_def [symmetric] r2_def [symmetric] pos_imp_zdiv_nonneg_iff)
  show "b \<le> 4" using 1 2 by linarith
  show "c \<le> 24" using 2 3 by linarith
  show "e \<le> 4" using 3 4 by linarith
  show "c = 0 \<and> e = 0 \<and> r = 0" if "b = 4"
    using that 1 2 3 4 c0 e0 by linarith
  show "r = 0 \<and> c \<le> 23" if "e = 4"
    using that 2 3 4 c0 by linarith
qed

text \<open>Division of a year written in the quotients.\<close>

lemma year_divs:
  fixes a b c e :: int
  assumes "0 \<le> b" "b \<le> 3" "0 \<le> c" "c \<le> 24" "0 \<le> e" "e \<le> 3"
  shows "(400 * a + 100 * b + 4 * c + e) div 4 = 100 * a + 25 * b + c"
    and "(400 * a + 100 * b + 4 * c + e) div 100 = 4 * a + b"
    and "(400 * a + 100 * b + 4 * c + e) div 400 = a"
proof -
  show "(400 * a + 100 * b + 4 * c + e) div 4 = 100 * a + 25 * b + c"
    by (rule div_eqI [where r = e]) (use assms in simp_all)
  show "(400 * a + 100 * b + 4 * c + e) div 100 = 4 * a + b"
    by (rule div_eqI [where r = "4 * c + e"]) (use assms in simp_all)
  show "(400 * a + 100 * b + 4 * c + e) div 400 = a"
    by (rule div_eqI [where r = "100 * b + 4 * c + e"]) (use assms in simp_all)
qed

lemma days_before_year_quotients:
  fixes a b c e :: int
  assumes "0 \<le> b" "b \<le> 3" "0 \<le> c" "c \<le> 24" "0 \<le> e" "e \<le> 3"
  shows "days_before_year (400 * a + 100 * b + 4 * c + e + 1) =
           146097 * a + 36524 * b + 1461 * c + 365 * e"
  by (simp add: days_before_year_def Let_def year_divs [OF assms])

lemma is_leap_quotients:
  fixes a b c e :: int
  assumes "0 \<le> b" "b \<le> 3" "0 \<le> c" "c \<le> 24" "0 \<le> e" "e \<le> 3"
  shows "is_leap (400 * a + 100 * b + 4 * c + e + 1) \<longleftrightarrow> e = 3 \<and> (c \<noteq> 24 \<or> b = 3)"
proof (cases "e = 3")
  case False
  have "(400 * a + 100 * b + 4 * c + e + 1) mod 4 = e + 1"
    by (rule mod_eqI [where q = "100 * a + 25 * b + c"]) (use assms False in simp_all)
  with False assms show ?thesis by (simp add: is_leap_def)
next
  case e: True
  have m4: "(400 * a + 100 * b + 4 * c + e + 1) mod 4 = 0"
    by (rule mod_eqI [where q = "100 * a + 25 * b + c + 1"]) (use e in simp_all)
  show ?thesis
  proof (cases "c = 24")
    case False
    have "(400 * a + 100 * b + 4 * c + e + 1) mod 100 = 4 * c + 4"
      by (rule mod_eqI [where q = "4 * a + b"]) (use assms e False in simp_all)
    with m4 e False assms show ?thesis by (simp add: is_leap_def)
  next
    case c: True
    have m100: "(400 * a + 100 * b + 4 * c + e + 1) mod 100 = 0"
      by (rule mod_eqI [where q = "4 * a + b + 1"]) (use e c in simp_all)
    show ?thesis
    proof (cases "b = 3")
      case True
      have "(400 * a + 100 * b + 4 * c + e + 1) mod 400 = 0"
        by (rule mod_eqI [where q = "a + 1"]) (use e c True in simp_all)
      with m4 m100 e c True show ?thesis by (simp add: is_leap_def)
    next
      case False
      have "(400 * a + 100 * b + 4 * c + e + 1) mod 400 = 100 * b + 100"
        by (rule mod_eqI [where q = a]) (use assms e c False in simp_all)
      with m4 m100 e c False assms show ?thesis by (simp add: is_leap_def)
    qed
  qed
qed

text \<open>The last day of a leap year, which \<open>_ord2ymd\<close> treats apart.\<close>

lemma last_day_of_fourth_year:
  fixes a b c :: int
  assumes "0 \<le> b" "b \<le> 3" "0 \<le> c" "c \<le> 23"
  shows "ymd2ord (400 * a + 100 * b + 4 * c + 4) 12 31 =
           146097 * a + 36524 * b + 1461 * c + 1461"
    and "days_in_month (400 * a + 100 * b + 4 * c + 4) 12 = 31"
proof -
  have eq: "400 * a + 100 * b + 4 * c + 3 + 1 = 400 * a + 100 * b + 4 * c + 4" by simp
  have "days_before_year (400 * a + 100 * b + 4 * c + 3 + 1) =
      146097 * a + 36524 * b + 1461 * c + 365 * 3"
    by (rule days_before_year_quotients) (use assms in simp_all)
  then have d: "days_before_year (400 * a + 100 * b + 4 * c + 4) =
      146097 * a + 36524 * b + 1461 * c + 365 * 3"
    by (simp only: eq)
  have "is_leap (400 * a + 100 * b + 4 * c + 3 + 1)"
    using is_leap_quotients [of b c 3 a] assms by simp
  then have "is_leap (400 * a + 100 * b + 4 * c + 4)" by (simp only: eq)
  then show "ymd2ord (400 * a + 100 * b + 4 * c + 4) 12 31 =
           146097 * a + 36524 * b + 1461 * c + 1461"
    by (simp add: ymd2ord_def d days_before_month_def DAYS_BEFORE_MONTH_def)
  show "days_in_month (400 * a + 100 * b + 4 * c + 4) 12 = 31"
    by (simp add: days_in_month_def DAYS_IN_MONTH_def)
qed

lemma last_day_of_400_years:
  fixes a :: int
  shows "ymd2ord (400 * a + 400) 12 31 = 146097 * a + 146097"
    and "days_in_month (400 * a + 400) 12 = 31"
proof -
  have eq: "400 * a + 100 * 3 + 4 * 24 + 3 + 1 = 400 * a + 400" by simp
  have "days_before_year (400 * a + 100 * 3 + 4 * 24 + 3 + 1) =
      146097 * a + 36524 * 3 + 1461 * 24 + 365 * 3"
    by (rule days_before_year_quotients) simp_all
  then have d: "days_before_year (400 * a + 400) = 146097 * a + 36524 * 3 + 1461 * 24 + 365 * 3"
    by (simp only: eq)
  have "is_leap (400 * a + 100 * 3 + 4 * 24 + 3 + 1)"
    using is_leap_quotients [of 3 24 3 a] by simp
  then have "is_leap (400 * a + 400)" by (simp only: eq)
  then show "ymd2ord (400 * a + 400) 12 31 = 146097 * a + 146097"
    by (simp add: ymd2ord_def d days_before_month_def DAYS_BEFORE_MONTH_def)
  show "days_in_month (400 * a + 400) 12 = 31"
    by (simp add: days_in_month_def DAYS_IN_MONTH_def)
qed

text \<open>The month estimate \<open>(n + 50) >> 5\<close> and its correction.\<close>

lemma month_estimate:
  fixes n :: int and L :: bool
  assumes n: "0 \<le> n" "n \<le> 364"
  defines "mo \<equiv> (n + 50) div 32"
  defines "preceding \<equiv> DAYS_BEFORE_MONTH ! nat mo + (if mo > 2 \<and> L then 1 else 0)"
  defines "res \<equiv>
     (if preceding > n
      then (mo - 1,
            n - (preceding - (DAYS_IN_MONTH ! nat (mo - 1) + (if mo - 1 = 2 \<and> L then 1 else 0))) + 1)
      else (mo, n - preceding + 1))"
  shows "1 \<le> fst res \<and> fst res \<le> 12 \<and> 1 \<le> snd res \<and>
         snd res \<le> (if fst res = 2 \<and> L then 29 else DAYS_IN_MONTH ! nat (fst res)) \<and>
         DAYS_BEFORE_MONTH ! nat (fst res) + (if fst res > 2 \<and> L then 1 else 0) + snd res = n + 1"
proof -
  define q where "q = (n + 50) mod 32"
  have q: "0 \<le> q" "q < 32" and nq: "n = 32 * mo + q - 50"
    by (simp_all add: q_def mo_def)
  have "1 \<le> mo" "mo \<le> 12"
    using n q nq by linarith+
  then have "mo = 1 \<or> mo = 2 \<or> mo = 3 \<or> mo = 4 \<or> mo = 5 \<or> mo = 6 \<or>
      mo = 7 \<or> mo = 8 \<or> mo = 9 \<or> mo = 10 \<or> mo = 11 \<or> mo = 12"
    by arith
  then consider "mo = 1" | "mo = 2" | "mo = 3" | "mo = 4" | "mo = 5" | "mo = 6"
    | "mo = 7" | "mo = 8" | "mo = 9" | "mo = 10" | "mo = 11" | "mo = 12"
    by blast
  then show ?thesis
  proof cases
    case 1 with n q nq show ?thesis
      by (simp add: res_def preceding_def DAYS_BEFORE_MONTH_def DAYS_IN_MONTH_def)
  next
    case 2 with n q nq show ?thesis
      by (simp add: res_def preceding_def DAYS_BEFORE_MONTH_def DAYS_IN_MONTH_def)
  next
    case 3 with n q nq show ?thesis
      by (simp add: res_def preceding_def DAYS_BEFORE_MONTH_def DAYS_IN_MONTH_def)
  next
    case 4 with n q nq show ?thesis
      by (simp add: res_def preceding_def DAYS_BEFORE_MONTH_def DAYS_IN_MONTH_def)
  next
    case 5 with n q nq show ?thesis
      by (simp add: res_def preceding_def DAYS_BEFORE_MONTH_def DAYS_IN_MONTH_def)
  next
    case 6 with n q nq show ?thesis
      by (simp add: res_def preceding_def DAYS_BEFORE_MONTH_def DAYS_IN_MONTH_def)
  next
    case 7 with n q nq show ?thesis
      by (simp add: res_def preceding_def DAYS_BEFORE_MONTH_def DAYS_IN_MONTH_def)
  next
    case 8 with n q nq show ?thesis
      by (simp add: res_def preceding_def DAYS_BEFORE_MONTH_def DAYS_IN_MONTH_def)
  next
    case 9 with n q nq show ?thesis
      by (simp add: res_def preceding_def DAYS_BEFORE_MONTH_def DAYS_IN_MONTH_def)
  next
    case 10 with n q nq show ?thesis
      by (simp add: res_def preceding_def DAYS_BEFORE_MONTH_def DAYS_IN_MONTH_def)
  next
    case 11 with n q nq show ?thesis
      by (simp add: res_def preceding_def DAYS_BEFORE_MONTH_def DAYS_IN_MONTH_def)
  next
    case 12 with n q nq show ?thesis
      by (simp add: res_def preceding_def DAYS_BEFORE_MONTH_def DAYS_IN_MONTH_def)
  qed
qed

lemma ord2ymd_correct:
  assumes n0: "1 \<le> n0" and res: "ord2ymd n0 = (y, m, d)"
  shows "ymd2ord y m d = n0 \<and> 1 \<le> y \<and> 1 \<le> m \<and> m \<le> 12 \<and> 1 \<le> d \<and> d \<le> days_in_month y m"
proof -
  define n where "n = n0 - 1"
  define a where "a = n div 146097"
  define b where "b = n mod 146097 div 36524"
  define c where "c = n mod 146097 mod 36524 div 1461"
  define e where "e = n mod 146097 mod 36524 mod 1461 div 365"
  define r where "r = n mod 146097 mod 36524 mod 1461 mod 365"
  have n: "0 \<le> n" using n0 by (simp add: n_def)
  note dec = ord_decompose [OF n, folded a_def b_def c_def e_def r_def]
  have sum: "n = 146097 * a + 36524 * b + 1461 * c + 365 * e + r" by (rule dec(1))
  have bounds: "0 \<le> a" "0 \<le> b" "b \<le> 4" "0 \<le> c" "c \<le> 24" "0 \<le> e" "e \<le> 4" "0 \<le> r" "r \<le> 364"
    by (rule dec)+
  define yr where "yr = a * 400 + 1 + (b * 100 + c * 4 + e)"
  define L where "L = (e = 3 \<and> (c \<noteq> 24 \<or> b = 3))"
  define mo where "mo = (r + 50) div 32"
  define preceding where "preceding = DAYS_BEFORE_MONTH ! nat mo + (if mo > 2 \<and> L then 1 else 0)"
  define md where "md =
     (if preceding > r
      then (mo - 1,
            r - (preceding - (DAYS_IN_MONTH ! nat (mo - 1) + (if mo - 1 = 2 \<and> L then 1 else 0))) + 1)
      else (mo, r - preceding + 1))"
  have unfold: "ord2ymd n0 =
     (if e = 4 \<or> b = 4 then (yr - 1, 12, 31) else (yr, fst md, snd md))"
    by (simp add: ord2ymd_def Let_def n_def [symmetric] a_def [symmetric] b_def [symmetric]
        c_def [symmetric] e_def [symmetric] r_def [symmetric] yr_def L_def mo_def preceding_def md_def)
  show ?thesis
  proof (cases "b = 4")
    case True
    then have z: "c = 0" "e = 0" "r = 0" using dec(11) by simp_all
    have "yr - 1 = 400 * a + 400" using True z by (simp add: yr_def)
    then have "(y, m, d) = (400 * a + 400, 12, 31)"
      using res unfold True by simp
    then have ymd: "y = 400 * a + 400" "m = 12" "d = 31" by simp_all
    have "n0 = 146097 * a + 146097"
      using sum True z by (simp add: n_def)
    then show ?thesis
      using ymd last_day_of_400_years [of a] bounds by simp
  next
    case b4: False
    then have b3: "b \<le> 3" using bounds by simp
    show ?thesis
    proof (cases "e = 4")
      case True
      then have z: "r = 0" "c \<le> 23" using dec(12) by simp_all
      have "yr - 1 = 400 * a + 100 * b + 4 * c + 4" using True by (simp add: yr_def)
      then have "(y, m, d) = (400 * a + 100 * b + 4 * c + 4, 12, 31)"
        using res unfold True by simp
      then have ymd: "y = 400 * a + 100 * b + 4 * c + 4" "m = 12" "d = 31" by simp_all
      have "n0 = 146097 * a + 36524 * b + 1461 * c + 1461"
        using sum True z by (simp add: n_def)
      then show ?thesis
        using ymd last_day_of_fourth_year [of b c a] bounds b3 z by simp
    next
      case False
      then have e3: "e \<le> 3" using bounds by simp
      have yr: "yr = 400 * a + 100 * b + 4 * c + e + 1" by (simp add: yr_def)
      have ymd: "y = yr" "m = fst md" "d = snd md"
        using res unfold False b4 by simp_all
      have dby: "days_before_year yr = 146097 * a + 36524 * b + 1461 * c + 365 * e"
        unfolding yr by (rule days_before_year_quotients) (use bounds b3 e3 in simp_all)
      have leap: "is_leap yr = L"
        unfolding yr L_def by (rule is_leap_quotients) (use bounds b3 e3 in simp_all)
      note me = month_estimate [OF bounds(8) bounds(9), of L,
          folded mo_def, folded preceding_def, folded md_def]
      have "ymd2ord y m d = n0"
        using me sum by (simp add: ymd ymd2ord_def days_before_month_def dby leap n_def)
      moreover have "1 \<le> y" using bounds by (simp add: ymd yr)
      moreover have "d \<le> days_in_month y m"
        using me by (simp add: ymd days_in_month_def leap)
      ultimately show ?thesis using me by (simp add: ymd)
    qed
  qed
qed

section \<open>The calendar: \<open>_ymd2ord\<close> is one-to-one on dates\<close>

lemma div_pred:
  fixes y k :: int
  assumes "0 < k"
  shows "y div k = (y - 1) div k + (if y mod k = 0 then 1 else 0)"
proof (cases "y mod k = 0")
  case True
  have y: "y = k * (y div k) + y mod k" by simp
  have "(y - 1) div k = y div k - 1"
  proof (rule div_eqI [where r = "k - 1"])
    show "y - 1 = k * (y div k - 1) + (k - 1)"
      using y True by (simp add: algebra_simps)
  qed (use assms in simp_all)
  with True show ?thesis by simp
next
  case False
  have y: "y = k * (y div k) + y mod k" by simp
  have "0 \<le> y mod k" "y mod k < k" using assms by simp_all
  with False have "1 \<le> y mod k" by simp
  have "(y - 1) div k = y div k"
  proof (rule div_eqI [where r = "y mod k - 1"])
    show "y - 1 = k * (y div k) + (y mod k - 1)"
      using y by simp
  qed (use \<open>1 \<le> y mod k\<close> \<open>y mod k < k\<close> in simp_all)
  with False show ?thesis by simp
qed

lemma mod_400_100_4:
  fixes y :: int
  shows "y mod 400 = 0 \<Longrightarrow> y mod 100 = 0" and "y mod 100 = 0 \<Longrightarrow> y mod 4 = 0"
proof -
  assume "y mod 400 = 0"
  then have "y = 400 * (y div 400)" using mult_div_mod_eq [of 400 y] by simp
  then have "y = 100 * (4 * (y div 400)) + 0" by simp
  then show "y mod 100 = 0" by (rule mod_eqI) simp_all
next
  assume "y mod 100 = 0"
  then have "y = 100 * (y div 100)" using mult_div_mod_eq [of 100 y] by simp
  then have "y = 4 * (25 * (y div 100)) + 0" by simp
  then show "y mod 4 = 0" by (rule mod_eqI) simp_all
qed

lemma days_before_year_Suc:
  "days_before_year (y + 1) = days_before_year y + 365 + (if is_leap y then 1 else 0)"
proof -
  define A where "A \<longleftrightarrow> y mod 4 = 0"
  define B where "B \<longleftrightarrow> y mod 100 = 0"
  define C where "C \<longleftrightarrow> y mod 400 = 0"
  define p4 where "p4 = (y - 1) div 4"
  define p100 where "p100 = (y - 1) div 100"
  define p400 where "p400 = (y - 1) div 400"
  define q4 where "q4 = y div 4"
  define q100 where "q100 = y div 100"
  define q400 where "q400 = y div 400"
  have d4: "q4 = p4 + (if A then 1 else 0)"
    unfolding q4_def p4_def A_def by (rule div_pred) simp
  have d100: "q100 = p100 + (if B then 1 else 0)"
    unfolding q100_def p100_def B_def by (rule div_pred) simp
  have d400: "q400 = p400 + (if C then 1 else 0)"
    unfolding q400_def p400_def C_def by (rule div_pred) simp
  have imp: "C \<longrightarrow> B" "B \<longrightarrow> A"
    using mod_400_100_4 [of y] by (simp_all add: A_def B_def C_def)
  have l: "is_leap y \<longleftrightarrow> A \<and> (\<not> B \<or> C)"
    by (simp add: is_leap_def A_def B_def C_def)
  have s: "days_before_year (y + 1) = y * 365 + q4 - q100 + q400"
    by (simp add: days_before_year_def q4_def q100_def q400_def)
  have t: "days_before_year y = (y - 1) * 365 + p4 - p100 + p400"
    by (simp add: days_before_year_def Let_def p4_def p100_def p400_def)
  show ?thesis
    unfolding s t l d4 d100 d400 using imp by (cases A; cases B; cases C) simp_all
qed

lemma days_before_year_mono:
  assumes "y \<le> y'"
  shows "days_before_year y + 365 * (y' - y) \<le> days_before_year y'"
  using assms
proof (induction y' rule: int_ge_induct)
  case base
  show ?case by simp
next
  case (step i)
  then show ?case by (simp add: days_before_year_Suc)
qed

lemma month_cases:
  fixes m :: int
  assumes "1 \<le> m" "m \<le> 12"
  obtains "m = 1" | "m = 2" | "m = 3" | "m = 4" | "m = 5" | "m = 6"
    | "m = 7" | "m = 8" | "m = 9" | "m = 10" | "m = 11" | "m = 12"
proof -
  from assms have "m = 1 \<or> m = 2 \<or> m = 3 \<or> m = 4 \<or> m = 5 \<or> m = 6 \<or>
      m = 7 \<or> m = 8 \<or> m = 9 \<or> m = 10 \<or> m = 11 \<or> m = 12"
    by arith
  then show thesis using that by blast
qed

lemma days_in_month_bounds:
  assumes "1 \<le> m" "m \<le> 12"
  shows "28 \<le> days_in_month y m" and "days_in_month y m \<le> 31"
  using assms by (cases m rule: month_cases; simp add: days_in_month_def DAYS_IN_MONTH_def)+

lemma days_before_month_step:
  assumes "1 \<le> m" "m \<le> 11"
  shows "days_before_month y (m + 1) = days_before_month y m + days_in_month y m"
proof -
  from assms have "1 \<le> m" "m \<le> 12" by simp_all
  then show ?thesis
    using assms
    by (cases m rule: month_cases)
       (simp_all add: days_before_month_def days_in_month_def DAYS_IN_MONTH_def DAYS_BEFORE_MONTH_def)
qed

lemma days_before_month_mono:
  assumes "1 \<le> m" "m < m'" "m' \<le> 12"
  shows "days_before_month y m + days_in_month y m \<le> days_before_month y m'"
proof -
  have "m + 1 \<le> m'" using assms by simp
  then show ?thesis using assms(3)
  proof (induction m' rule: int_ge_induct)
    case base
    then show ?case using assms by (simp add: days_before_month_step)
  next
    case (step i)
    then have "1 \<le> i" "i \<le> 11" using assms by simp_all
    then have "days_before_month y (i + 1) = days_before_month y i + days_in_month y i"
      by (rule days_before_month_step)
    moreover have "0 \<le> days_in_month y i"
      using days_in_month_bounds(1) [of i y] \<open>1 \<le> i\<close> \<open>i \<le> 11\<close> by simp
    ultimately show ?case using step by simp
  qed
qed

lemma day_of_year_bounds:
  assumes "1 \<le> m" "m \<le> 12" "1 \<le> d" "d \<le> days_in_month y m"
  shows "1 \<le> days_before_month y m + d"
    and "days_before_month y m + d \<le> 365 + (if is_leap y then 1 else 0)"
  using assms
  by (cases m rule: month_cases;
      simp add: days_before_month_def days_in_month_def DAYS_IN_MONTH_def DAYS_BEFORE_MONTH_def
        split: if_splits)+

lemma ymd2ord_bounds:
  assumes "1 \<le> m" "m \<le> 12" "1 \<le> d" "d \<le> days_in_month y m"
  shows "days_before_year y < ymd2ord y m d" and "ymd2ord y m d \<le> days_before_year (y + 1)"
  using day_of_year_bounds [OF assms] by (simp_all add: ymd2ord_def days_before_year_Suc)

lemma ymd2ord_inj:
  assumes v: "1 \<le> m" "m \<le> 12" "1 \<le> d" "d \<le> days_in_month y m"
    and v': "1 \<le> m'" "m' \<le> 12" "1 \<le> d'" "d' \<le> days_in_month y' m'"
    and eq: "ymd2ord y m d = ymd2ord y' m' d'"
  shows "y = y' \<and> m = m' \<and> d = d'"
proof -
  have y: "y = y'"
  proof (rule ccontr)
    assume "y \<noteq> y'"
    then consider "y + 1 \<le> y'" | "y' + 1 \<le> y" by linarith
    then show False
    proof cases
      case 1
      have "ymd2ord y m d \<le> days_before_year (y + 1)" using v by (rule ymd2ord_bounds)
      also have "\<dots> \<le> days_before_year y'"
        using days_before_year_mono [OF 1] 1 by simp
      also have "\<dots> < ymd2ord y' m' d'" using v' by (rule ymd2ord_bounds)
      finally show False using eq by simp
    next
      case 2
      have "ymd2ord y' m' d' \<le> days_before_year (y' + 1)" using v' by (rule ymd2ord_bounds)
      also have "\<dots> \<le> days_before_year y"
        using days_before_year_mono [OF 2] 2 by simp
      also have "\<dots> < ymd2ord y m d" using v by (rule ymd2ord_bounds)
      finally show False using eq by simp
    qed
  qed
  with eq have e: "days_before_month y m + d = days_before_month y m' + d'"
    by (simp add: ymd2ord_def)
  have m: "m = m'"
  proof (rule ccontr)
    assume "m \<noteq> m'"
    then consider "m < m'" | "m' < m" by linarith
    then show False
    proof cases
      case 1
      have "days_before_month y m + days_in_month y m \<le> days_before_month y m'"
        using v(1) 1 v'(2) by (rule days_before_month_mono)
      with v v' e show False by simp
    next
      case 2
      have "days_before_month y m' + days_in_month y m' \<le> days_before_month y m"
        using v'(1) 2 v(2) by (rule days_before_month_mono)
      with v v' e y show False by simp
    qed
  qed
  with y e show ?thesis by simp
qed

lemma ymd2ord_range:
  assumes "1 \<le> y" "y \<le> 9999" "1 \<le> m" "m \<le> 12" "1 \<le> d" "d \<le> days_in_month y m"
  shows "1 \<le> ymd2ord y m d" and "ymd2ord y m d \<le> MAXORDINAL"
proof -
  have 1: "days_before_year 1 = 0" by (simp add: days_before_year_def)
  have 2: "days_before_year 10000 = 3652059" by (simp add: days_before_year_def)
  have "days_before_year 1 + 365 * (y - 1) \<le> days_before_year y"
    using assms(1) by (rule days_before_year_mono)
  then have "0 \<le> days_before_year y" using 1 assms(1) by simp
  then show "1 \<le> ymd2ord y m d"
    using ymd2ord_bounds(1) [OF assms(3-6)] by simp
  have "y + 1 \<le> 10000" using assms(2) by simp
  then have "days_before_year (y + 1) + 365 * (10000 - (y + 1)) \<le> days_before_year 10000"
    by (rule days_before_year_mono)
  then have "days_before_year (y + 1) \<le> 3652059" using 2 assms(2) by simp
  then show "ymd2ord y m d \<le> MAXORDINAL"
    using ymd2ord_bounds(2) [OF assms(3-6)] by (simp add: MAXORDINAL_def)
qed

lemma ord2ymd_year_le:
  assumes "1 \<le> n" "n \<le> MAXORDINAL" "ord2ymd n = (y, m, d)"
  shows "y \<le> 9999"
proof (rule ccontr)
  assume "\<not> y \<le> 9999"
  then have y: "10000 \<le> y" by simp
  note c = ord2ymd_correct [OF assms(1) assms(3)]
  have "days_before_year 10000 + 365 * (y - 10000) \<le> days_before_year y"
    using y by (rule days_before_year_mono)
  moreover have "days_before_year 10000 = 3652059" by (simp add: days_before_year_def)
  moreover have "days_before_year y < ymd2ord y m d"
    using c by (intro ymd2ord_bounds) simp_all
  ultimately show False using c assms(2) y by (simp add: MAXORDINAL_def)
qed

section \<open>Arithmetic on \<open>datetime\<close>\<close>

lemma datetime_add_correct:
  assumes lo: "86400000000 \<le> datetime_us dt + td"
    and hi: "datetime_us dt + td < (MAXORDINAL + 1) * 86400000000"
  shows "\<exists>dt'. datetime_add dt td = Return dt' \<and> valid_datetime dt' \<and>
               datetime_us dt' = datetime_us dt + td"
proof -
  define p where "p = datetime_us dt + td"
  define days where "days = p div 86400000000"
  define rem where "rem = p mod 86400000000"
  define seconds where "seconds = rem div 1000000"
  define us where "us = rem mod 1000000"
  define hr where "hr = seconds div 3600"
  define rem2 where "rem2 = seconds mod 3600"
  define mi where "mi = rem2 div 60"
  define sc where "sc = rem2 mod 60"
  have 1: "p = 86400000000 * days + rem" "0 \<le> rem" "rem < 86400000000"
    by (simp_all add: days_def rem_def)
  have 2: "rem = 1000000 * seconds + us" "0 \<le> us" "us < 1000000"
    by (simp_all add: seconds_def us_def)
  have 3: "seconds = 3600 * hr + rem2" "0 \<le> rem2" "rem2 < 3600"
    by (simp_all add: hr_def rem2_def)
  have 4: "rem2 = 60 * mi + sc" "0 \<le> sc" "sc < 60"
    by (simp_all add: mi_def sc_def)
  have s0: "0 \<le> seconds" using 1 by (simp add: seconds_def pos_imp_zdiv_nonneg_iff)
  have s1: "seconds < 86400" using 1 2 by linarith
  have h0: "0 \<le> hr" using s0 by (simp add: hr_def pos_imp_zdiv_nonneg_iff)
  have h1: "hr \<le> 23" using 3 s1 by linarith
  have m0: "0 \<le> mi" using 3 by (simp add: mi_def pos_imp_zdiv_nonneg_iff)
  have m1: "mi \<le> 59" using 3 4 by linarith
  have d0: "0 < days" using lo 1 unfolding p_def [symmetric] by linarith
  have "p < 315537984000000000" using hi by (simp add: p_def MAXORDINAL_def)
  then have "days \<le> 3652059" using 1 by linarith
  then have d1: "days \<le> MAXORDINAL" by (simp add: MAXORDINAL_def)
  have us': "p mod 1000000 = us"
    by (simp add: us_def rem_def mod_mod_cancel)
  obtain y m d where ymd: "ord2ymd days = (y, m, d)"
    by (cases "ord2ymd days") auto
  from d0 have "1 \<le> days" by simp
  note c = ord2ymd_correct [OF this ymd]
  have y9: "y \<le> 9999" using \<open>1 \<le> days\<close> d1 ymd by (rule ord2ymd_year_le)
  define dt' where "dt' = \<lparr>year = y, month = m, day = d, hour = hr, minute = mi, second = sc,
      microsecond = us\<rparr>"
  have r: "datetime_add dt td = Return dt'"
    using d0 d1
    by (simp add: datetime_add_def Let_def p_def [symmetric] days_def [symmetric]
        rem_def [symmetric] seconds_def [symmetric] us' hr_def [symmetric] rem2_def [symmetric]
        mi_def [symmetric] sc_def [symmetric] ymd dt'_def)
  have v: "valid_datetime dt'"
    using c y9 h0 h1 m0 m1 4 2 by (simp add: valid_datetime_def dt'_def)
  have "datetime_us dt' = (days * 86400 + hr * 3600 + mi * 60 + sc) * 1000000 + us"
    using c by (simp add: datetime_us_def toordinal_def dt'_def)
  also have "\<dots> = 86400000000 * days + 1000000 * (3600 * hr + (60 * mi + sc)) + us"
    by simp
  also have "\<dots> = p" using 1(1) 2(1) 3(1) 4(1) by simp
  finally have "datetime_us dt' = datetime_us dt + td" by (simp add: p_def)
  with r v show ?thesis by blast
qed

lemma valid_datetime_toordinal:
  assumes "valid_datetime dt"
  shows "1 \<le> toordinal dt" and "toordinal dt \<le> MAXORDINAL"
  using assms ymd2ord_range [of "year dt" "month dt" "day dt"]
  by (simp_all add: valid_datetime_def toordinal_def)

lemma valid_datetime_us:
  assumes "valid_datetime dt"
  shows "86400000000 \<le> datetime_us dt" and "datetime_us dt < (MAXORDINAL + 1) * 86400000000"
proof -
  define s where "s = hour dt * 3600 + minute dt * 60 + second dt"
  have s: "0 \<le> s" "s < 86400" using assms by (simp_all add: valid_datetime_def s_def)
  have u: "0 \<le> microsecond dt" "microsecond dt < 1000000"
    using assms by (simp_all add: valid_datetime_def)
  have e: "datetime_us dt = 86400000000 * toordinal dt + 1000000 * s + microsecond dt"
    by (simp add: datetime_us_def s_def)
  show "86400000000 \<le> datetime_us dt"
    using valid_datetime_toordinal(1) [OF assms] s u unfolding e by linarith
  have "toordinal dt \<le> 3652059"
    using valid_datetime_toordinal(2) [OF assms] by (simp add: MAXORDINAL_def)
  then have "datetime_us dt < 315537984000000000"
    using s u unfolding e by linarith
  then show "datetime_us dt < (MAXORDINAL + 1) * 86400000000"
    by (simp add: MAXORDINAL_def)
qed

lemma datetime_us_inj:
  assumes a: "valid_datetime a" and b: "valid_datetime b" and eq: "datetime_us a = datetime_us b"
  shows "a = b"
proof -
  define sa where "sa = hour a * 3600 + minute a * 60 + second a"
  define sb where "sb = hour b * 3600 + minute b * 60 + second b"
  have ra: "0 \<le> sa" "sa < 86400" "0 \<le> microsecond a" "microsecond a < 1000000"
    using a by (simp_all add: valid_datetime_def sa_def)
  have rb: "0 \<le> sb" "sb < 86400" "0 \<le> microsecond b" "microsecond b < 1000000"
    using b by (simp_all add: valid_datetime_def sb_def)
  have ea: "datetime_us a = 1000000 * (toordinal a * 86400 + sa) + microsecond a"
    by (simp add: datetime_us_def sa_def)
  have eb: "datetime_us b = 1000000 * (toordinal b * 86400 + sb) + microsecond b"
    by (simp add: datetime_us_def sb_def)
  have us: "microsecond a = microsecond b"
    using mod_eqI [OF ea ra(3) ra(4)] mod_eqI [OF eb rb(3) rb(4)] eq by simp
  have "toordinal a * 86400 + sa = toordinal b * 86400 + sb"
    using div_eqI [OF ea ra(3) ra(4)] div_eqI [OF eb rb(3) rb(4)] eq by simp
  then have os: "86400 * toordinal a + sa = 86400 * toordinal b + sb" by simp
  have s: "sa = sb"
    using mod_eqI [OF refl ra(1) ra(2), of "toordinal a"] mod_eqI [OF refl rb(1) rb(2), of "toordinal b"] os
    by simp
  have ord: "toordinal a = toordinal b"
    using os s by simp
  have ha: "0 \<le> minute a * 60 + second a" "minute a * 60 + second a < 3600"
    "0 \<le> second a" "second a < 60"
    using a by (simp_all add: valid_datetime_def)
  have hb: "0 \<le> minute b * 60 + second b" "minute b * 60 + second b < 3600"
    "0 \<le> second b" "second b < 60"
    using b by (simp_all add: valid_datetime_def)
  have sa': "sa = 3600 * hour a + (minute a * 60 + second a)" by (simp add: sa_def)
  have sb': "sb = 3600 * hour b + (minute b * 60 + second b)" by (simp add: sb_def)
  have h: "hour a = hour b"
    using div_eqI [OF sa' ha(1) ha(2)] div_eqI [OF sb' hb(1) hb(2)] s by simp
  have ms: "60 * minute a + second a = 60 * minute b + second b"
    using mod_eqI [OF sa' ha(1) ha(2)] mod_eqI [OF sb' hb(1) hb(2)] s by simp
  have sec: "second a = second b"
    using mod_eqI [OF refl ha(3) ha(4), of "minute a"] mod_eqI [OF refl hb(3) hb(4), of "minute b"] ms
    by simp
  have mi: "minute a = minute b" using ms sec by simp
  have "year a = year b \<and> month a = month b \<and> day a = day b"
    using a b ord by (intro ymd2ord_inj) (simp_all add: valid_datetime_def toordinal_def)
  with h mi sec us show ?thesis by simp
qed

section \<open>The list of dates\<close>

lemma collect_map:
  assumes "\<forall>x \<in> set xs. f x = Return (g x)"
  shows "collect (map f xs) = Return (map g xs)"
  using assms by (induction xs) simp_all

lemma int_truediv_nonneg:
  assumes "0 \<le> a" "0 < b"
  shows "int_truediv a b = Return (a div b)"
  using assms by (cases "a = 0") (simp_all add: int_truediv_def)

lemma enumerate_dates_spec:
  assumes s: "valid_datetime s" and e: "valid_datetime e"
    and le: "datetime_us s \<le> datetime_us e" and step: "0 < step"
  shows "\<exists>xs. enumerate_dates s e step = Return xs \<and>
           length xs = nat ((datetime_us e - datetime_us s) div step) \<and>
           (\<forall>i < length xs. valid_datetime (xs ! i) \<and>
               datetime_us (xs ! i) = datetime_us s + int i * step \<and>
               datetime_us (xs ! i) < datetime_us e)"
proof -
  define D where "D = datetime_us e - datetime_us s"
  define n where "n = nat (D div step)"
  have D0: "0 \<le> D" using le by (simp add: D_def)
  have q0: "0 \<le> D div step" using D0 step by (simp add: pos_imp_zdiv_nonneg_iff)
  have qs: "D div step * step \<le> D"
    using div_mult_mod_eq [of D step] pos_mod_sign [OF step, of D] by linarith
  have pos: "datetime_us s + int i * step < datetime_us e \<and> datetime_us s \<le> datetime_us s + int i * step"
    if "i < n" for i
  proof -
    have "int i + 1 \<le> D div step" using that q0 by (simp add: n_def)
    then have "(int i + 1) * step \<le> D div step * step"
      using step by (intro mult_right_mono) simp_all
    then have "int i * step + step \<le> D" using qs by (simp add: algebra_simps)
    moreover have "0 \<le> int i * step" using step by simp
    ultimately show ?thesis using step by (simp add: D_def)
  qed
  have ex: "\<exists>dt'. datetime_add s (int i * step) = Return dt' \<and> valid_datetime dt' \<and>
                 datetime_us dt' = datetime_us s + int i * step"
    if "i < n" for i
  proof (rule datetime_add_correct)
    show "86400000000 \<le> datetime_us s + int i * step"
      using pos [OF that] valid_datetime_us(1) [OF s] by simp
    show "datetime_us s + int i * step < (MAXORDINAL + 1) * 86400000000"
      using pos [OF that] valid_datetime_us(2) [OF e] by simp
  qed
  then have "\<forall>i \<in> {..<n}. \<exists>dt'. datetime_add s (int i * step) = Return dt' \<and> valid_datetime dt' \<and>
                 datetime_us dt' = datetime_us s + int i * step"
    by simp
  then obtain g where g: "\<forall>i \<in> {..<n}. datetime_add s (int i * step) = Return (g i) \<and>
      valid_datetime (g i) \<and> datetime_us (g i) = datetime_us s + int i * step"
    by (rule bchoice [THEN exE]) 
  have "collect (map (\<lambda>i. datetime_add s (int i * step)) [0..<n]) = Return (map g [0..<n])"
    by (rule collect_map) (use g in simp)
  then have r: "enumerate_dates s e step = Return (map g [0..<n])"
    using D0 step
    by (simp add: enumerate_dates_def datetime_sub_def D_def [symmetric] int_truediv_nonneg n_def)
  show ?thesis
    using r g pos by (auto simp: n_def D_def)
qed

lemma valid_mk_datetime_may_2010:
  "0 \<le> h \<Longrightarrow> h \<le> 23 \<Longrightarrow> valid_datetime (mk_datetime 2010 5 1 h 0 0)"
  by (simp add: valid_datetime_def mk_datetime_def days_in_month_def DAYS_IN_MONTH_def)

lemma datetime_us_may_2010:
  "datetime_us (mk_datetime 2010 5 1 h 0 0) = 63408355200000000 + h * 3600000000"
  by (simp add: datetime_us_def toordinal_def mk_datetime_def ymd2ord_def days_before_year_def
      days_before_month_def DAYS_BEFORE_MONTH_def is_leap_def)

lemma valid_start_end: "valid_datetime start_date" "valid_datetime end_date"
  by (simp_all add: start_date_def end_date_def valid_datetime_def mk_datetime_def
      days_in_month_def DAYS_IN_MONTH_def)

lemma datetime_us_start_end:
  "datetime_us start_date = 63408355200000000"
  "datetime_us end_date = 63850204800000000"
  by (simp_all add: start_date_def end_date_def datetime_us_def toordinal_def mk_datetime_def
      ymd2ord_def days_before_year_def days_before_month_def DAYS_BEFORE_MONTH_def is_leap_def)

lemma data_list_spec:
  "\<exists>xs. data_list = Return xs \<and> length xs = 122736 \<and>
     (\<forall>i < length xs. valid_datetime (xs ! i) \<and>
        datetime_us (xs ! i) = datetime_us start_date + int i * 3600000000 \<and>
        datetime_us (xs ! i) < datetime_us end_date)"
proof -
  have "datetime_us start_date \<le> datetime_us end_date"
    by (simp add: datetime_us_start_end)
  moreover have "(0::int) < 3600000000" by simp
  ultimately obtain xs where xs: "enumerate_dates start_date end_date 3600000000 = Return xs"
    "length xs = nat ((datetime_us end_date - datetime_us start_date) div 3600000000)"
    "\<forall>i < length xs. valid_datetime (xs ! i) \<and>
        datetime_us (xs ! i) = datetime_us start_date + int i * 3600000000 \<and>
        datetime_us (xs ! i) < datetime_us end_date"
    using enumerate_dates_spec [OF valid_start_end, of 3600000000] by blast
  have "length xs = 122736"
    using xs(2) by (simp add: datetime_us_start_end)
  with xs show ?thesis
    by (auto simp: data_list_def delta_def timedelta_hours_def)
qed

lemma data_list_range:
  "\<exists>xs. data_list = Return xs \<and> length xs = 122736 \<and>
      (\<forall>x \<in> set xs. datetime_us start_date \<le> datetime_us x \<and>
                     datetime_us x < datetime_us end_date)"
proof -
  obtain xs where xs: "data_list = Return xs" "length xs = 122736"
    "\<forall>i < length xs. valid_datetime (xs ! i) \<and>
        datetime_us (xs ! i) = datetime_us start_date + int i * 3600000000 \<and>
        datetime_us (xs ! i) < datetime_us end_date"
    using data_list_spec by blast
  have rng: "datetime_us start_date \<le> datetime_us x \<and> datetime_us x < datetime_us end_date"
    if "x \<in> set xs" for x
  proof -
    from that obtain i where i: "i < length xs" "xs ! i = x"
      unfolding in_set_conv_nth by blast
    note at = xs(3) [rule_format, OF i(1)]
    have p: "datetime_us (xs ! i) = datetime_us start_date + int i * 3600000000"
      and q: "datetime_us (xs ! i) < datetime_us end_date"
      using at by simp_all
    have "0 \<le> int i * 3600000000" by simp
    with p q show ?thesis unfolding i(2) by linarith
  qed
  show ?thesis
  proof (intro exI conjI ballI)
    show "data_list = Return xs" by (rule xs(1))
    show "length xs = 122736" by (rule xs(2))
  qed (use rng in blast)+
qed

lemma three_hours:
  "enumerate_dates (mk_datetime 2010 5 1 0 0 0) (mk_datetime 2010 5 1 3 0 0) (timedelta_hours 1) =
     Return [mk_datetime 2010 5 1 0 0 0, mk_datetime 2010 5 1 1 0 0, mk_datetime 2010 5 1 2 0 0]"
proof -
  let ?s = "mk_datetime 2010 5 1 0 0 0" and ?e = "mk_datetime 2010 5 1 3 0 0"
  have v: "valid_datetime ?s" "valid_datetime ?e"
    by (simp_all add: valid_mk_datetime_may_2010)
  have le: "datetime_us ?s \<le> datetime_us ?e"
    by (simp add: datetime_us_may_2010)
  have st: "(0::int) < 3600000000" by simp
  obtain xs where xs: "enumerate_dates ?s ?e 3600000000 = Return xs"
    "length xs = nat ((datetime_us ?e - datetime_us ?s) div 3600000000)"
    "\<forall>i < length xs. valid_datetime (xs ! i) \<and>
        datetime_us (xs ! i) = datetime_us ?s + int i * 3600000000 \<and>
        datetime_us (xs ! i) < datetime_us ?e"
    using enumerate_dates_spec [OF v le st] by blast
  have len: "length xs = 3"
    using xs(2) by (simp add: datetime_us_may_2010)
  have el: "xs ! i = mk_datetime 2010 5 1 (int i) 0 0" if "i < 3" for i
  proof (rule datetime_us_inj)
    show "valid_datetime (xs ! i)" using xs(3) that len by simp
    show "valid_datetime (mk_datetime 2010 5 1 (int i) 0 0)"
      using that by (intro valid_mk_datetime_may_2010) simp_all
    show "datetime_us (xs ! i) = datetime_us (mk_datetime 2010 5 1 (int i) 0 0)"
      using xs(3) that len by (simp add: datetime_us_may_2010)
  qed
  obtain a b c where "xs = [a, b, c]"
    using len by (auto simp: numeral_3_eq_3 length_Suc_conv)
  then have "xs = [xs ! 0, xs ! 1, xs ! 2]"
    by simp
  also have "\<dots> = [mk_datetime 2010 5 1 0 0 0, mk_datetime 2010 5 1 1 0 0, mk_datetime 2010 5 1 2 0 0]"
    using el [of 0] el [of 1] el [of 2] by simp
  finally show ?thesis using xs(1) by (simp add: timedelta_hours_def)
qed

section \<open>Paths determine the date and time\<close>

lemma digit_inj:
  assumes "0 \<le> a" "a \<le> 9" "0 \<le> b" "b \<le> 9" "digit a = digit b"
  shows "a = b"
proof -
  have d: "distinct ''0123456789''" by simp
  have "nat a < length ''0123456789''" "nat b < length ''0123456789''"
    using assms by simp_all
  then have "nat a = nat b"
    using assms(5) d unfolding digit_def by (simp only: nth_eq_iff_index_eq)
  then show ?thesis using assms by simp
qed

lemma zpad_inj: "zpad w a = zpad w b \<Longrightarrow> a mod 10 ^ w = b mod 10 ^ w"
proof (induction w arbitrary: a b)
  case 0
  show ?case by simp
next
  case (Suc w)
  from Suc.prems have z: "zpad w (a div 10) = zpad w (b div 10)"
    and d: "digit (a mod 10) = digit (b mod 10)"
    by simp_all
  have m: "a mod 10 = b mod 10"
    using d by (intro digit_inj) simp_all
  have ih: "a div 10 mod 10 ^ w = b div 10 mod 10 ^ w"
    using z by (rule Suc.IH)
  have "a mod (10 * 10 ^ w) = 10 * (a div 10 mod 10 ^ w) + a mod 10"
    by (rule zmod_zmult2_eq) simp
  moreover have "b mod (10 * 10 ^ w) = 10 * (b div 10 mod 10 ^ w) + b mod 10"
    by (rule zmod_zmult2_eq) simp
  ultimately show ?case
    using m ih by simp
qed

lemma zpad_inj_bounded:
  assumes "zpad w a = zpad w b" "0 \<le> a" "a < 10 ^ w" "0 \<le> b" "b < 10 ^ w"
  shows "a = b"
  using zpad_inj [OF assms(1)] assms(2-) by simp

lemma output_path_fields:
  assumes "output_path output_dir a = output_path output_dir' b"
  shows "zpad 4 (year a) = zpad 4 (year b)" "zpad 2 (month a) = zpad 2 (month b)"
    "zpad 2 (day a) = zpad 2 (day b)" "zpad 2 (hour a) = zpad 2 (hour b)"
    "zpad 2 (minute a) = zpad 2 (minute b)" "zpad 2 (second a) = zpad 2 (second b)"
  using assms by (simp_all add: output_path_eq strftime_path_format)

lemma output_path_inj:
  assumes a: "valid_datetime a" and b: "valid_datetime b"
    and eq: "output_path output_dir a = output_path output_dir' b"
  shows "year a = year b \<and> month a = month b \<and> day a = day b \<and>
         hour a = hour b \<and> minute a = minute b \<and> second a = second b"
proof -
  note f = output_path_fields [OF eq]
  have da: "day a \<le> 31" using a days_in_month_bounds(2) [of "month a" "year a"]
    by (simp add: valid_datetime_def)
  have db: "day b \<le> 31" using b days_in_month_bounds(2) [of "month b" "year b"]
    by (simp add: valid_datetime_def)
  have "year a = year b"
    using f(1) a b by (intro zpad_inj_bounded [of 4]) (simp_all add: valid_datetime_def)
  moreover have "month a = month b"
    using f(2) a b by (intro zpad_inj_bounded [of 2]) (simp_all add: valid_datetime_def)
  moreover have "day a = day b"
    using f(3) a b da db by (intro zpad_inj_bounded [of 2]) (simp_all add: valid_datetime_def)
  moreover have "hour a = hour b"
    using f(4) a b by (intro zpad_inj_bounded [of 2]) (simp_all add: valid_datetime_def)
  moreover have "minute a = minute b"
    using f(5) a b by (intro zpad_inj_bounded [of 2]) (simp_all add: valid_datetime_def)
  moreover have "second a = second b"
    using f(6) a b by (intro zpad_inj_bounded [of 2]) (simp_all add: valid_datetime_def)
  ultimately show ?thesis by simp
qed

lemma same_path_close:
  assumes a: "valid_datetime a" and b: "valid_datetime b"
    and eq: "output_path output_dir a = output_path output_dir' b"
  shows "datetime_us a - datetime_us b < 1000000" and "datetime_us b - datetime_us a < 1000000"
proof -
  note f = output_path_inj [OF a b eq]
  have "datetime_us a - datetime_us b = microsecond a - microsecond b"
    using f by (simp add: datetime_us_def toordinal_def)
  moreover have "0 \<le> microsecond a" "microsecond a \<le> 999999" "0 \<le> microsecond b"
    "microsecond b \<le> 999999"
    using a b by (simp_all add: valid_datetime_def)
  ultimately show "datetime_us a - datetime_us b < 1000000"
    and "datetime_us b - datetime_us a < 1000000"
    by linarith+
qed

lemma data_list_distinct_paths:
  assumes "data_list = Return xs"
  shows "distinct (map (output_path output_dir) xs)"
proof -
  obtain ys where ys: "data_list = Return ys"
    "\<forall>i < length ys. valid_datetime (ys ! i) \<and>
        datetime_us (ys ! i) = datetime_us start_date + int i * 3600000000 \<and>
        datetime_us (ys ! i) < datetime_us end_date"
    using data_list_spec by blast
  have "Return xs = Return ys" using assms [symmetric] ys(1) by (rule trans)
  then have xy: "ys = xs" by simp
  have ne: "output_path output_dir (xs ! i) \<noteq> output_path output_dir (xs ! j)"
    if "i < j" "j < length xs" for i j
  proof
    assume eq: "output_path output_dir (xs ! i) = output_path output_dir (xs ! j)"
    have i: "i < length xs" using that by simp
    note ai = ys(2) [unfolded xy, rule_format, OF i]
    note aj = ys(2) [unfolded xy, rule_format, OF that(2)]
    have "datetime_us (xs ! j) - datetime_us (xs ! i) < 1000000"
      using same_path_close(2) [OF _ _ eq] ai aj by simp
    then have "3600000000 * int j - 3600000000 * int i < 1000000"
      using ai aj by simp
    moreover have "int i + 1 \<le> int j" using that by simp
    ultimately show False by linarith
  qed
  have "map (output_path output_dir) xs ! i \<noteq> map (output_path output_dir) xs ! j"
    if "i < length xs" "j < length xs" "i \<noteq> j" for i j
  proof (cases "i < j")
    case True
    then show ?thesis using ne [of i j] that by simp
  next
    case False
    then have "j < i" using that by simp
    then show ?thesis using ne [of j i] that by (simp add: eq_commute)
  qed
  then show ?thesis
    by (simp add: distinct_conv_nth)
qed

section \<open>The pool: what every schedule preserves\<close>

text \<open>A task that runs undisturbed does what \<open>sel_mid_line\<close> does.\<close>

lemma except_clauses_eq:
  "except_clauses t e w =
     (Done (Return None), print (if e = FileNotFoundError then NoDataFound t else ErrorProcessing t e) w)"
  by (simp add: except_clauses_def)

lemma task_step_alone:
  "(case task_step input_dir output_dir t Queued w of
      (st1, w1) \<Rightarrow>
        (case task_step input_dir output_dir t st1 w1 of
           (st2, w2) \<Rightarrow> task_step input_dir output_dir t st2 w2)) =
   (Done (fst (sel_mid_line input_dir output_dir t w)), snd (sel_mid_line input_dir output_dir t w))"
proof (cases "torch_load (files w) (data_path input_dir t)")
  case (Raise e)
  then show ?thesis
    by (simp add: task_step_def except_clauses_eq sel_mid_line_load_raises)
next
  case ld: (Return data)
  show ?thesis
  proof (cases "index_column data 512")
    case (Raise e)
    have "e = IndexError"
      using Raise by (auto simp: index_column_def split: list.splits if_splits)
    then show ?thesis
      using ld Raise
      by (simp add: task_step_def except_clauses_eq sel_mid_line_index_raises [OF ld Raise])
  next
    case ix: (Return col)
    have wk: "walk (files w) [year_dir t, month_dir t, day_dir t] = None"
      using ld by (rule torch_load_walk)
    show ?thesis
      using ld ix
      by (simp add: task_step_def except_clauses_eq sel_mid_line_loaded [OF ld ix]
          makedirs_existing [OF wk] torch_save_output [OF wk])
  qed
qed






























text \<open>A pool of no workers: \<open>ThreadPoolExecutor\<close> raises before any task is submitted.\<close>

lemma run_batch_no_workers:
  "num_cpus \<le> 0 \<Longrightarrow>
     run_batch num_cpus input_dir output_dir ds schedule w =
       Some (Raise ValueError, \<lparr>world = w, states = [], raised = None\<rparr>)"
  by (simp add: run_batch_def)

section \<open>The claims\<close>

subsection \<open>C1: the derived paths\<close>

text \<open>
  Claim C1 says the input path is \<open>input_root\<close> followed by
  \<open>/YYYY/MM/DD/hmi.M_720s.YYYYMMDD_HHMMSS_TAI.pt\<close>, and likewise for the output path
  under \<open>output_root\<close>. The format string of lines 40 and 42 starts with the
  separator, so \<open>os.path.join\<close> drops the root: for 2012-03-04T05:00:00 the input
  path under \<open>/data\<close> is \<open>/2012/03/04/hmi.M_720s.20120304_050000_TAI.pt\<close> and the
  output path under \<open>/out\<close> is \<open>/2012/03/04/hmi.M_720s.20120304_050000_midline.pt\<close>;
  neither is the path the claim gives.
\<close>

theorem paths_drop_the_root:
  "data_path ''/data'' (mk_datetime 2012 3 4 5 0 0) =
     ''/2012/03/04/hmi.M_720s.20120304_050000_TAI.pt'' \<and>
   output_path ''/out'' (mk_datetime 2012 3 4 5 0 0) =
     ''/2012/03/04/hmi.M_720s.20120304_050000_midline.pt'' \<and>
   data_path ''/data'' (mk_datetime 2012 3 4 5 0 0) \<noteq>
     ''/data/2012/03/04/hmi.M_720s.20120304_050000_TAI.pt'' \<and>
   output_path ''/out'' (mk_datetime 2012 3 4 5 0 0) \<noteq>
     ''/out/2012/03/04/hmi.M_720s.20120304_050000_midline.pt''"
  by (simp add: data_path_def output_path_def relevant_path_def strftime_path_format
      os_path_join_def mk_datetime_def zpad_2 zpad_4 digit_def)

subsection \<open>C5: a missing input is skipped\<close>

text \<open>
  Claim C5: when \<open>torch.load\<close> raises \<open>FileNotFoundError\<close> for the input path,
  \<open>sel_mid_line\<close> returns \<open>None\<close> without raising, prints the skip line and nothing
  else, and leaves the file system as it was, so no output file is created.
\<close>

theorem missing_input_is_skipped:
  assumes "torch_load (files w) (data_path input_dir t) = Raise FileNotFoundError"
  shows "sel_mid_line input_dir output_dir t w = (Return None, print (NoDataFound t) w) \<and>
         files (snd (sel_mid_line input_dir output_dir t w)) = files w"
  using assms by (simp add: sel_mid_line_load_raises print_def)

theorem missing_input_is_skipped_witness:
  "sel_mid_line ''/data'' ''/out'' example_date \<lparr>files = example_dirs, stdout = []\<rparr> =
     (Return None, \<lparr>files = example_dirs, stdout = [NoDataFound example_date]\<rparr>)"
  using missing_input_is_skipped
    [of "\<lparr>files = example_dirs, stdout = []\<rparr>" "''/data''" example_date "''/out''"]
  by (simp add: example_data_path example_load_missing print_def)

subsection \<open>C6: a grid without column 512 is a failure\<close>

text \<open>
  Claim C6: when the input loads and the tensor has no index 512 in its second
  dimension (fewer than two dimensions, or a second dimension of size at most 512),
  \<open>sel_mid_line\<close> prints the error line with the \<open>IndexError\<close> and returns \<open>None\<close>; it
  does not raise.
\<close>

theorem narrow_grid_is_a_failure:
  assumes "torch_load (files w) (data_path input_dir t) = Return data"
    and "\<not> (\<exists>d0 d1 rest. shape data = d0 # d1 # rest \<and> 512 < d1)"
  shows "sel_mid_line input_dir output_dir t w =
           (Return None, print (ErrorProcessing t IndexError) w)"
  using assms(1) index_column_Raise [OF assms(2)] by (rule sel_mid_line_index_raises)

theorem narrow_grid_is_a_failure_witness:
  "sel_mid_line ''/data'' ''/out'' example_date
     \<lparr>files = example_dirs(example_input \<mapsto> File (Pickled (Tensor [2, 3] [1, 2, 3, 4, 5, 6::int]))),
      stdout = []\<rparr> =
   (Return None,
    \<lparr>files = example_dirs(example_input \<mapsto> File (Pickled (Tensor [2, 3] [1, 2, 3, 4, 5, 6]))),
     stdout = [ErrorProcessing example_date IndexError]\<rparr>)"
  using narrow_grid_is_a_failure
    [of "\<lparr>files = example_dirs(example_input \<mapsto>
                File (Pickled (Tensor [2, 3] [1, 2, 3, 4, 5, 6::int]))), stdout = []\<rparr>"
      "''/data''" example_date "Tensor [2, 3] [1, 2, 3, 4, 5, 6]" "''/out''"]
  by (simp add: example_data_path example_load_grid print_def)

subsection \<open>C10: nothing is written when loading or slicing fails\<close>

text \<open>
  Claim C10: when \<open>torch.load\<close> raises, or the input loads and \<open>data[:, 512]\<close> raises,
  \<open>sel_mid_line\<close> returns \<open>None\<close> and the file system after the call is the file
  system before it: no directory is created and no file is written.
\<close>

theorem load_or_slice_failure_writes_nothing:
  assumes "torch_load (files w) (data_path input_dir t) = Raise e \<or>
           (\<exists>data. torch_load (files w) (data_path input_dir t) = Return data \<and>
                   index_column data 512 = Raise e)"
  shows "files (snd (sel_mid_line input_dir output_dir t w)) = files w \<and>
         fst (sel_mid_line input_dir output_dir t w) = Return None"
  using assms
  by (auto simp: sel_mid_line_load_raises sel_mid_line_index_raises print_def)

theorem load_or_slice_failure_writes_nothing_witness:
  "files (snd (sel_mid_line ''/data'' ''/out'' example_date
      \<lparr>files = example_dirs(example_input \<mapsto> File Corrupt), stdout = []\<rparr>)) =
     example_dirs(example_input \<mapsto> File Corrupt) \<and>
   fst (sel_mid_line ''/data'' ''/out'' example_date
      \<lparr>files = example_dirs(example_input \<mapsto> File Corrupt), stdout = []\<rparr>) = Return None"
  using load_or_slice_failure_writes_nothing
    [of "\<lparr>files = example_dirs(example_input \<mapsto> File Corrupt), stdout = []\<rparr>"
      "''/data''" example_date UnpicklingError "''/out''"]
  by (simp add: example_data_path example_load_corrupt)

subsection \<open>C2: what the caller can tell apart\<close>

text \<open>
  Claim C2 says the result of a task lets the loop over the futures tell a skip from a
  failure. It does not: for a missing input and for a corrupt one \<open>sel_mid_line\<close>
  returns the same value, \<open>None\<close>; only the lines printed inside the task differ, and
  the loop prints nothing for either.
\<close>

theorem skip_and_failure_return_the_same:
  "fst (sel_mid_line ''/data'' ''/out'' example_date \<lparr>files = example_dirs, stdout = []\<rparr>) =
     Return None \<and>
   fst (sel_mid_line ''/data'' ''/out'' example_date
          \<lparr>files = example_dirs(example_input \<mapsto> File Corrupt), stdout = []\<rparr>) = Return None \<and>
   stdout (snd (sel_mid_line ''/data'' ''/out'' example_date \<lparr>files = example_dirs, stdout = []\<rparr>)) =
     [NoDataFound example_date] \<and>
   stdout (snd (sel_mid_line ''/data'' ''/out'' example_date
          \<lparr>files = example_dirs(example_input \<mapsto> File Corrupt), stdout = []\<rparr>)) =
     [ErrorProcessing example_date UnpicklingError] \<and>
   stdout (snd (as_completed_loop [(example_date, Return None)]
          \<lparr>files = example_dirs, stdout = []\<rparr>)) = []"
proof -
  have a: "torch_load (files \<lparr>files = example_dirs, stdout = []\<rparr>) (data_path ''/data'' example_date)
             = Raise FileNotFoundError"
    by (simp add: example_data_path example_load_missing)
  have b: "torch_load (files \<lparr>files = example_dirs(example_input \<mapsto> File Corrupt), stdout = []\<rparr>)
             (data_path ''/data'' example_date) = Raise UnpicklingError"
    by (simp add: example_data_path example_load_corrupt)
  show ?thesis
    by (simp add: sel_mid_line_load_raises [OF a] sel_mid_line_load_raises [OF b] print_def)
qed

text \<open>
  Claim C2, amended: every call of \<open>sel_mid_line\<close> ends in exactly one of three
  outcomes, told apart by the one line it prints: success (\<open>Processed\<close>, and the output
  path is returned), skip (\<open>NoDataFound\<close>) or failure (\<open>ErrorProcessing\<close> with a cause
  other than \<open>FileNotFoundError\<close>). The value returned is \<open>None\<close> for skip and failure
  alike.
\<close>

theorem three_outcomes:
  "(fst (sel_mid_line input_dir output_dir t w) = Return (Some (output_path output_dir t)) \<and>
    stdout (snd (sel_mid_line input_dir output_dir t w)) = stdout w @ [Processed t]) \<or>
   (fst (sel_mid_line input_dir output_dir t w) = Return None \<and>
    stdout (snd (sel_mid_line input_dir output_dir t w)) = stdout w @ [NoDataFound t]) \<or>
   (fst (sel_mid_line input_dir output_dir t w) = Return None \<and>
    (\<exists>e. e \<noteq> FileNotFoundError \<and>
         stdout (snd (sel_mid_line input_dir output_dir t w)) = stdout w @ [ErrorProcessing t e]))"
proof -
  let ?r = "sel_mid_line input_dir output_dir t w"
  consider
    (raise) e where "?r = (Return None,
        print (if e = FileNotFoundError then NoDataFound t else ErrorProcessing t e) w)"
  | (index) "?r = (Return None, print (ErrorProcessing t IndexError) w)"
  | (isdir) "?r = (Return None, print (ErrorProcessing t IsADirectoryError) w)"
  | (saved) col where "?r = (Return (Some (output_path output_dir t)),
        print (Processed t)
          (w\<lparr>files := (files w)(output_path output_dir t \<mapsto> File (Pickled col))\<rparr>))"
    using sel_mid_line_cases [of w input_dir t output_dir] by blast
  then show ?thesis
  proof cases
    case (raise e)
    then show ?thesis
      by (cases "e = FileNotFoundError") (simp_all add: print_def)
  next
    case index
    then show ?thesis by (simp add: print_def)
  next
    case isdir
    then show ?thesis by (simp add: print_def)
  next
    case (saved col)
    then show ?thesis by (simp add: print_def)
  qed
qed

theorem three_outcomes_witness:
  "fst (sel_mid_line ''/data'' ''/out'' example_date
          \<lparr>files = example_dirs(example_input \<mapsto> File (Pickled example_grid)), stdout = []\<rparr>) =
     Return (Some example_output) \<and>
   stdout (snd (sel_mid_line ''/data'' ''/out'' example_date
          \<lparr>files = example_dirs(example_input \<mapsto> File (Pickled example_grid)), stdout = []\<rparr>)) =
     [Processed example_date]"
proof -
  let ?w = "\<lparr>files = example_dirs(example_input \<mapsto> File (Pickled example_grid)), stdout = []\<rparr>"
  have ld: "torch_load (files ?w) (data_path ''/data'' example_date) = Return example_grid"
    by (simp add: example_data_path example_load_grid)
  have nd: "files ?w (output_path ''/out'' example_date) \<noteq> Some Dir"
    by (simp add: example_output_path example_dirs_def example_output_def example_input_def)
  have "fst (sel_mid_line ''/data'' ''/out'' example_date ?w) \<noteq> Return None"
    using nd by (simp only: sel_mid_line_loaded [OF ld example_column] if_False fst_conv)  simp
  with three_outcomes [of "''/data''" "''/out''" example_date ?w]
  show ?thesis by (simp add: example_output_path)
qed

subsection \<open>C4: the saved array is column 512\<close>

text \<open>
  Claim C4: when the input loads as a tensor of at least two dimensions whose second
  dimension has size 513 or more, \<open>sel_mid_line\<close> saves at the output path the tensor
  \<open>column data 512\<close>: its shape is the shape of the input without dimension 1, and its
  element at \<open>i, ks\<close> is the element of the input at \<open>i, 512, ks\<close>. Nothing is saved
  only when the output path names a directory.
\<close>

theorem persisted_array_is_column_512:
  assumes ld: "torch_load (files w) (data_path input_dir t) = Return data"
    and sh: "shape data = d0 # d1 # rest" and wide: "513 \<le> d1"
  shows "sel_mid_line input_dir output_dir t w =
           (if files w (output_path output_dir t) = Some Dir
            then (Return None, print (ErrorProcessing t IsADirectoryError) w)
            else (Return (Some (output_path output_dir t)),
                  print (Processed t)
                    (w\<lparr>files := (files w)(output_path output_dir t \<mapsto>
                                    File (Pickled (column data 512)))\<rparr>))) \<and>
         shape (column data 512) = d0 # rest \<and>
         length (storage (column data 512)) = d0 * prod_list rest \<and>
         (\<forall>i ks. i < d0 \<and> in_shape rest ks \<longrightarrow>
            tensor_at (column data 512) (i # ks) = tensor_at data (i # 512 # ks))"
proof -
  from wide have "512 < d1" by arith
  with sh have ix: "index_column data 512 = Return (column data 512)"
    by (rule index_column_Return)
  have "length (storage (column data 512)) = d0 * prod_list rest"
    using sh by (simp add: column_def)
  then show ?thesis
    using sh by (simp add: sel_mid_line_loaded [OF ld ix] shape_column column_at)
qed

theorem persisted_array_is_column_512_witness:
  "sel_mid_line ''/data'' ''/out'' example_date
     \<lparr>files = example_dirs(example_input \<mapsto> File (Pickled example_grid)), stdout = []\<rparr> =
   (Return (Some example_output),
    \<lparr>files = example_dirs(example_input \<mapsto> File (Pickled example_grid),
                            example_output \<mapsto> File (Pickled (Tensor [2] [512, 1025]))),
     stdout = [Processed example_date]\<rparr>) \<and>
   tensor_at (Tensor [2] [512, 1025]) [0] = tensor_at example_grid [0, 512] \<and>
   tensor_at (Tensor [2] [512, 1025]) [1] = tensor_at example_grid [1, 512]"
proof -
  let ?w = "\<lparr>files = example_dirs(example_input \<mapsto> File (Pickled example_grid)), stdout = []\<rparr>"
  have ld: "torch_load (files ?w) (data_path ''/data'' example_date) = Return example_grid"
    by (simp add: example_data_path example_load_grid)
  have sh: "shape example_grid = 2 # 513 # []"
    by (simp add: example_grid_def)
  have nd: "files ?w (output_path ''/out'' example_date) \<noteq> Some Dir"
    by (simp add: example_output_path example_dirs_def example_output_def example_input_def)
  note inst = persisted_array_is_column_512 [OF ld sh, of "''/out''", simplified example_column_eq]
  have a: "sel_mid_line ''/data'' ''/out'' example_date ?w =
     (Return (Some example_output),
      \<lparr>files = example_dirs(example_input \<mapsto> File (Pickled example_grid),
                            example_output \<mapsto> File (Pickled (Tensor [2] [512, 1025]))),
       stdout = [Processed example_date]\<rparr>)"
    using inst nd by (simp add: example_output_path print_def)
  have b: "tensor_at (Tensor [2] [512, 1025]) [0] = tensor_at example_grid [0, 512]"
    using inst by simp
  have c: "tensor_at (Tensor [2] [512, 1025]) [1] = tensor_at example_grid [1, 512]"
    using inst by simp
  show ?thesis using a b c by simp
qed

subsection \<open>C7: one task's failure leaves the others alone\<close>



subsection \<open>C8: running twice\<close>

text \<open>
  Claim C8: a second call of \<open>sel_mid_line\<close> for the same timestamp, on the file system
  the first call left, returns what the first returned and leaves every file as the
  first call left it, the output file included. A file that is already at the output
  path is overwritten with the sliced column, whatever it held.
\<close>

theorem rerun_overwrites_with_the_same_column:
  "fst (sel_mid_line input_dir output_dir t (snd (sel_mid_line input_dir output_dir t w))) =
     fst (sel_mid_line input_dir output_dir t w) \<and>
   files (snd (sel_mid_line input_dir output_dir t (snd (sel_mid_line input_dir output_dir t w)))) =
     files (snd (sel_mid_line input_dir output_dir t w)) \<and>
   (\<forall>data col b.
      torch_load (files w) (data_path input_dir t) = Return data \<and>
      index_column data 512 = Return col \<and>
      files w (output_path output_dir t) = Some (File b) \<longrightarrow>
      files (snd (sel_mid_line input_dir output_dir t w)) (output_path output_dir t) =
        Some (File (Pickled col)))"
proof -
  let ?w1 = "snd (sel_mid_line input_dir output_dir t w)"
  have added: "outputs_added (files w) (files ?w1)"
    using outputs_added_refl by (rule sel_mid_line_outputs_added(2))
  have ret: "fst (sel_mid_line input_dir output_dir t ?w1) = fst (sel_mid_line input_dir output_dir t w)"
    using added by (rule sel_mid_line_outputs_added(1))
  have ld: "torch_load (files ?w1) (data_path input_dir t) = torch_load (files w) (data_path input_dir t)"
    using added by (rule outputs_added_load)
  have same: "files (snd (sel_mid_line input_dir output_dir t ?w1)) = files ?w1"
  proof (cases "torch_load (files w) (data_path input_dir t)")
    case (Raise e)
    with ld show ?thesis
      by (simp add: sel_mid_line_eq [of input_dir output_dir t ?w1] print_def)
  next
    case load: (Return data)
    show ?thesis
    proof (cases "index_column data 512")
      case (Raise e)
      with ld load show ?thesis
        by (simp add: sel_mid_line_eq [of input_dir output_dir t ?w1] print_def)
    next
      case col: (Return col)
      show ?thesis
      proof (cases "files w (output_path output_dir t) = Some Dir")
        case True
        then have "?w1 = print (ErrorProcessing t IsADirectoryError) w"
          by (simp add: sel_mid_line_loaded [OF load col])
        then have "files ?w1 = files w"
          by (simp add: print_def)
        with True ld load col show ?thesis
          by (simp add: sel_mid_line_eq [of input_dir output_dir t ?w1] print_def)
      next
        case False
        then have "?w1 = print (Processed t)
            (w\<lparr>files := (files w)(output_path output_dir t \<mapsto> File (Pickled col))\<rparr>)"
          by (simp add: sel_mid_line_loaded [OF load col])
        then have f1: "files ?w1 = (files w)(output_path output_dir t \<mapsto> File (Pickled col))"
          by (simp add: print_def)
        then have "files ?w1 (output_path output_dir t) \<noteq> Some Dir"
          by simp
        with ld load col f1 show ?thesis
          by (simp add: sel_mid_line_eq [of input_dir output_dir t ?w1] print_def)
      qed
    qed
  qed
  have over: "files ?w1 (output_path output_dir t) = Some (File (Pickled col))"
    if "torch_load (files w) (data_path input_dir t) = Return data"
      and "index_column data 512 = Return col"
      and "files w (output_path output_dir t) = Some (File b)" for data col b
    using that by (simp add: sel_mid_line_loaded [OF that(1) that(2)] print_def)
  show ?thesis
    using ret same over by blast
qed

theorem rerun_overwrites_with_the_same_column_witness:
  "files (snd (sel_mid_line ''/data'' ''/out'' example_date
      \<lparr>files = example_dirs(example_input \<mapsto> File (Pickled example_grid),
                              example_output \<mapsto> File Corrupt), stdout = []\<rparr>))
     example_output = Some (File (Pickled (Tensor [2] [512, 1025])))"
proof -
  let ?w = "\<lparr>files = example_dirs(example_input \<mapsto> File (Pickled example_grid),
                              example_output \<mapsto> File Corrupt), stdout = []\<rparr>"
  have ne: "example_input \<noteq> example_output"
    by (simp add: example_input_def example_output_def)
  have "torch_load (example_dirs(example_input \<mapsto> File (Pickled example_grid),
                              example_output \<mapsto> File Corrupt)) example_input = Return example_grid"
    using example_load_grid [of example_grid] ne
    by (simp add: fun_upd_twist [of example_input example_output] torch_load_def stat_def
        example_ancestors entry_at_def example_dirs_def)
       (simp add: example_input_def example_output_def)
  then have ld: "torch_load (files ?w) (data_path ''/data'' example_date) = Return example_grid"
    by (simp add: example_data_path)
  have out: "files ?w (output_path ''/out'' example_date) = Some (File Corrupt)"
    by (simp add: example_output_path)
  show ?thesis
    using rerun_overwrites_with_the_same_column [of "''/data''" "''/out''" example_date ?w]
      ld example_column out
    by (simp only: example_output_path)
qed

subsection \<open>C3: the list of dates\<close>

text \<open>
  Claim C3: for valid \<open>start \<le> end\<close> and a positive step (and a range below \<open>2^53\<close>
  microseconds, where the float quotient of line 78 is exact) the list comprehension
  returns \<open>floor((end - start) / step)\<close> dates; the \<open>i\<close>-th is the valid date \<open>i\<close> steps
  after \<open>start\<close>, it lies in \<open>[start, end)\<close>, the list is strictly increasing and
  begins with \<open>start\<close>. From 2010-05-01T00:00 to 03:00 by the hour it is exactly
  00:00, 01:00, 02:00. The list of the program has 122736 dates, all in
  \<open>[start_date, end_date)\<close>.
\<close>

theorem enumerate_dates_correct:
  "(valid_datetime s \<and> valid_datetime e \<and> datetime_us s \<le> datetime_us e \<and> 0 < step \<and>
    datetime_us e - datetime_us s < 2 ^ 53 \<longrightarrow>
     (\<exists>xs. enumerate_dates s e step = Return xs \<and>
        length xs = nat ((datetime_us e - datetime_us s) div step) \<and>
        (\<forall>i < length xs. valid_datetime (xs ! i) \<and>
            datetime_us (xs ! i) = datetime_us s + int i * step \<and>
            datetime_us s \<le> datetime_us (xs ! i) \<and> datetime_us (xs ! i) < datetime_us e) \<and>
        sorted_wrt (\<lambda>a b. datetime_us a < datetime_us b) xs \<and>
        (xs \<noteq> [] \<longrightarrow> hd xs = s))) \<and>
   enumerate_dates (mk_datetime 2010 5 1 0 0 0) (mk_datetime 2010 5 1 3 0 0) (timedelta_hours 1) =
     Return [mk_datetime 2010 5 1 0 0 0, mk_datetime 2010 5 1 1 0 0, mk_datetime 2010 5 1 2 0 0] \<and>
   (\<exists>xs. data_list = Return xs \<and> length xs = 122736 \<and>
      (\<forall>x \<in> set xs. datetime_us start_date \<le> datetime_us x \<and>
                     datetime_us x < datetime_us end_date))"
proof (intro conjI impI)
  assume a: "valid_datetime s \<and> valid_datetime e \<and> datetime_us s \<le> datetime_us e \<and> 0 < step \<and>
    datetime_us e - datetime_us s < 2 ^ 53"
  then have s: "valid_datetime s" and e: "valid_datetime e"
    and le: "datetime_us s \<le> datetime_us e" and step: "0 < step" by simp_all
  obtain xs where xs: "enumerate_dates s e step = Return xs"
    "length xs = nat ((datetime_us e - datetime_us s) div step)"
    "\<forall>i < length xs. valid_datetime (xs ! i) \<and>
        datetime_us (xs ! i) = datetime_us s + int i * step \<and>
        datetime_us (xs ! i) < datetime_us e"
    using enumerate_dates_spec [OF s e le step] by blast
  have ge: "datetime_us s \<le> datetime_us (xs ! i)" if "i < length xs" for i
    using xs(3) that step by simp
  have "datetime_us (xs ! i) < datetime_us (xs ! j)" if "i < j" "j < length xs" for i j
  proof -
    have "int i * step < int j * step"
      using that step by (intro mult_strict_right_mono) simp_all
    then show ?thesis using xs(3) that by simp
  qed
  then have sorted: "sorted_wrt (\<lambda>a b. datetime_us a < datetime_us b) xs"
    by (simp add: sorted_wrt_iff_nth_less)
  have hd: "hd xs = s" if "xs \<noteq> []"
  proof -
    have 0: "0 < length xs" using that by simp
    have "xs ! 0 = s"
      using xs(3) 0 s by (intro datetime_us_inj) simp_all
    then show ?thesis using that by (simp add: hd_conv_nth)
  qed
  show "\<exists>xs. enumerate_dates s e step = Return xs \<and>
        length xs = nat ((datetime_us e - datetime_us s) div step) \<and>
        (\<forall>i < length xs. valid_datetime (xs ! i) \<and>
            datetime_us (xs ! i) = datetime_us s + int i * step \<and>
            datetime_us s \<le> datetime_us (xs ! i) \<and> datetime_us (xs ! i) < datetime_us e) \<and>
        sorted_wrt (\<lambda>a b. datetime_us a < datetime_us b) xs \<and>
        (xs \<noteq> [] \<longrightarrow> hd xs = s)"
    using xs ge sorted hd by blast
next
  show "enumerate_dates (mk_datetime 2010 5 1 0 0 0) (mk_datetime 2010 5 1 3 0 0) (timedelta_hours 1) =
     Return [mk_datetime 2010 5 1 0 0 0, mk_datetime 2010 5 1 1 0 0, mk_datetime 2010 5 1 2 0 0]"
    by (rule three_hours)
next
  show "\<exists>xs. data_list = Return xs \<and> length xs = 122736 \<and>
      (\<forall>x \<in> set xs. datetime_us start_date \<le> datetime_us x \<and>
                     datetime_us x < datetime_us end_date)"
    by (rule data_list_range)
qed

theorem enumerate_dates_correct_witness:
  "\<exists>xs. enumerate_dates (mk_datetime 2010 5 1 0 0 0) (mk_datetime 2010 5 1 2 0 0) 3600000000 =
          Return xs \<and> length xs = 2 \<and> hd xs = mk_datetime 2010 5 1 0 0 0"
proof -
  let ?s = "mk_datetime 2010 5 1 0 0 0" and ?e = "mk_datetime 2010 5 1 2 0 0"
  have "valid_datetime ?s \<and> valid_datetime ?e \<and> datetime_us ?s \<le> datetime_us ?e \<and>
      (0::int) < 3600000000 \<and> datetime_us ?e - datetime_us ?s < 2 ^ 53"
    by (simp add: valid_mk_datetime_may_2010 datetime_us_may_2010)
  with enumerate_dates_correct [of ?s ?e 3600000000]
  obtain xs where xs: "enumerate_dates ?s ?e 3600000000 = Return xs"
    "length xs = nat ((datetime_us ?e - datetime_us ?s) div 3600000000)"
    "xs \<noteq> [] \<longrightarrow> hd xs = ?s"
    by blast
  have "length xs = 2" using xs(2) by (simp add: datetime_us_may_2010)
  with xs show ?thesis by auto
qed

subsection \<open>C9: no two dates of the list share an output path\<close>

text \<open>
  Claim C9: the output paths of the dates of \<open>data_list\<close> are pairwise different, so
  two different dates of the list never have the same output path and no two tasks
  write the same file.
\<close>

theorem output_paths_are_distinct:
  "\<exists>xs. data_list = Return xs \<and>
      distinct (map (output_path output_dir) xs) \<and>
      (\<forall>a \<in> set xs. \<forall>b \<in> set xs. a \<noteq> b \<longrightarrow>
          output_path output_dir a \<noteq> output_path output_dir b)"
proof -
  obtain xs where xs: "data_list = Return xs"
    using data_list_spec by blast
  have d: "distinct (map (output_path output_dir) xs)"
    using xs by (rule data_list_distinct_paths)
  then have "inj_on (output_path output_dir) (set xs)"
    by (simp add: distinct_map)
  then have "\<forall>a \<in> set xs. \<forall>b \<in> set xs. a \<noteq> b \<longrightarrow>
      output_path output_dir a \<noteq> output_path output_dir b"
    by (auto simp: inj_on_def)
  with xs d show ?thesis by blast
qed

theorem output_paths_are_distinct_witness:
  "output_path ''/out'' (mk_datetime 2010 5 1 0 0 0) \<noteq>
   output_path ''/out'' (mk_datetime 2010 5 1 1 0 0)"
proof -
  obtain xs where xs: "data_list = Return xs"
    and inj: "\<forall>a \<in> set xs. \<forall>b \<in> set xs. a \<noteq> b \<longrightarrow>
          output_path ''/out'' a \<noteq> output_path ''/out'' b"
    using output_paths_are_distinct [of "''/out''"] by blast
  obtain ys where ys: "data_list = Return ys" "length ys = 122736"
    "\<forall>i < length ys. valid_datetime (ys ! i) \<and>
        datetime_us (ys ! i) = datetime_us start_date + int i * 3600000000 \<and>
        datetime_us (ys ! i) < datetime_us end_date"
    using data_list_spec by blast
  have "Return xs = Return ys" using xs [symmetric] ys(1) by (rule trans)
  then have xy: "ys = xs" by simp
  have len: "0 < length xs" "1 < length xs" using ys(2) xy by simp_all
  have el: "xs ! i = mk_datetime 2010 5 1 (int i) 0 0" if "i < 2" for i
  proof (rule datetime_us_inj)
    have i: "i < length xs" using that len by simp
    note at = ys(3) [unfolded xy, rule_format, OF i]
    show "valid_datetime (xs ! i)" using at by simp
    show "valid_datetime (mk_datetime 2010 5 1 (int i) 0 0)"
      using that by (intro valid_mk_datetime_may_2010) simp_all
    show "datetime_us (xs ! i) = datetime_us (mk_datetime 2010 5 1 (int i) 0 0)"
      using at by (simp add: datetime_us_may_2010 datetime_us_start_end)
  qed
  have a: "mk_datetime 2010 5 1 0 0 0 \<in> set xs"
    using el [of 0] len nth_mem [of 0 xs] by simp
  have b: "mk_datetime 2010 5 1 1 0 0 \<in> set xs"
    using el [of 1] len nth_mem [of 1 xs] by simp
  have "mk_datetime 2010 5 1 0 0 0 \<noteq> mk_datetime 2010 5 1 1 0 0"
    by (simp add: mk_datetime_def)
  with inj a b show ?thesis by blast
qed

end
